theory Spec2Isabelle
  imports Complex_Main "HOL-Library.AList" "HOL-Library.Word"
begin

section \<open>JavaScript numbers\<close>

text \<open>
  Every \<open>number\<close> of the source is an IEEE 754 double (\<open>float64\<close> in the Candid
  interface). A double is NaN, one of the two infinities, or a finite value, kept here as
  the rational it denotes. The two zeros are kept as one value: the code compares numbers,
  tests them for truthiness, and adds, subtracts and divides them by the positive constant
  \<open>oneDay\<close>, and none of these tells \<open>-0\<close> from \<open>0\<close>.

  \<open>fl\<close> rounds a rational to the nearest double, ties to the even significand: the grid
  around \<open>x\<close> has spacing \<open>2 ^ p\<close> with \<open>p = \<lfloor>log2 |x|\<rfloor> - 52\<close>, not below the subnormal
  spacing \<open>2 ^ -1074\<close>, and a result of \<open>2 ^ 1024\<close> or more is an infinity.
\<close>

datatype number = NaN | PInf | NInf | Fin rat

definition pow2 :: "int \<Rightarrow> rat" where
  "pow2 p = 2 powi p"

definition rhe :: "rat \<Rightarrow> int" where
  "rhe y = (let f = \<lfloor>y\<rfloor>; r = y - of_int f
            in if r < 1 / 2 then f else if 1 / 2 < r then f + 1
               else if even f then f else f + 1)"

text \<open>
  \<open>bitLen a\<close> is the number of binary digits of a positive integer \<open>a\<close>, and \<open>ilog2 x\<close>
  is \<open>\<lfloor>log2 x\<rfloor>\<close> for a positive rational \<open>x\<close>.
\<close>

function bitLen :: "int \<Rightarrow> int" where
  "bitLen a = (if 0 < a then bitLen (a div 2) + 1 else 0)"
  by pat_completeness auto
termination
  by (relation "measure nat") auto

definition ilog2 :: "rat \<Rightarrow> int" where
  "ilog2 x = (if 1 \<le> x then bitLen \<lfloor>x\<rfloor> - 1 else - bitLen (\<lceil>1 / x\<rceil> - 1))"

definition flpos :: "rat \<Rightarrow> number" where
  "flpos x = (let p = max (ilog2 x - 52) (- 1074);
                  y = of_int (rhe (x / pow2 p)) * pow2 p
              in if pow2 1024 \<le> y then PInf else Fin y)"

fun fneg :: "number \<Rightarrow> number" where
  "fneg NaN = NaN"
| "fneg PInf = NInf"
| "fneg NInf = PInf"
| "fneg (Fin x) = Fin (- x)"

definition fl :: "rat \<Rightarrow> number" where
  "fl x = (if x < 0 then fneg (flpos (- x)) else flpos x)"

text \<open>The operators \<open>+\<close>, \<open>-\<close> and \<open>/\<close>.\<close>

fun fadd :: "number \<Rightarrow> number \<Rightarrow> number" where
  "fadd NaN y = NaN"
| "fadd x NaN = NaN"
| "fadd PInf NInf = NaN"
| "fadd NInf PInf = NaN"
| "fadd PInf y = PInf"
| "fadd x PInf = PInf"
| "fadd NInf y = NInf"
| "fadd x NInf = NInf"
| "fadd (Fin a) (Fin b) = fl (a + b)"

definition fsub :: "number \<Rightarrow> number \<Rightarrow> number" where
  "fsub x y = fadd x (fneg y)"

fun fdiv :: "number \<Rightarrow> number \<Rightarrow> number" where
  "fdiv NaN y = NaN"
| "fdiv x NaN = NaN"
| "fdiv (Fin a) (Fin b) =
     (if b = 0 then (if a = 0 then NaN else if 0 < a then PInf else NInf) else fl (a / b))"
| "fdiv (Fin a) y = Fin 0"
| "fdiv x (Fin b) = (if (x = PInf) = (0 \<le> b) then PInf else NInf)"
| "fdiv x y = NaN"

text \<open>\<open>Math.abs\<close>, \<open>Math.round\<close> (a half rounds towards plus infinity) and \<open>Math.max\<close>.\<close>

fun fabs :: "number \<Rightarrow> number" where
  "fabs NaN = NaN"
| "fabs PInf = PInf"
| "fabs NInf = PInf"
| "fabs (Fin x) = Fin \<bar>x\<bar>"

fun jsRound :: "number \<Rightarrow> number" where
  "jsRound (Fin x) = Fin (of_int \<lfloor>x + 1 / 2\<rfloor>)"
| "jsRound x = x"

text \<open>
  The comparisons \<open><\<close>, \<open>===\<close>, \<open><=\<close>, \<open>>\<close>, \<open>>=\<close>: each is false when an operand is NaN.
  \<open>falsy x\<close> is \<open>!x\<close>, true of 0 and of NaN.
\<close>

fun js_lt :: "number \<Rightarrow> number \<Rightarrow> bool" where
  "js_lt NaN y = False"
| "js_lt x NaN = False"
| "js_lt PInf y = False"
| "js_lt x PInf = True"
| "js_lt x NInf = False"
| "js_lt NInf y = True"
| "js_lt (Fin a) (Fin b) = (a < b)"

definition js_eq :: "number \<Rightarrow> number \<Rightarrow> bool" where
  "js_eq x y \<longleftrightarrow> x = y \<and> x \<noteq> NaN"

definition js_le :: "number \<Rightarrow> number \<Rightarrow> bool" where
  "js_le x y \<longleftrightarrow> js_lt x y \<or> js_eq x y"

definition js_gt :: "number \<Rightarrow> number \<Rightarrow> bool" where
  "js_gt x y = js_lt y x"

definition js_ge :: "number \<Rightarrow> number \<Rightarrow> bool" where
  "js_ge x y = js_le y x"

fun jsMax :: "number \<Rightarrow> number \<Rightarrow> number" where
  "jsMax NaN y = NaN"
| "jsMax x NaN = NaN"
| "jsMax x y = (if js_lt x y then y else x)"

definition falsy :: "number \<Rightarrow> bool" where
  "falsy x \<longleftrightarrow> x = Fin 0 \<or> x = NaN"

section \<open>Data model (src/src/index.ts, lines 15-61)\<close>

text \<open>
  The canister keeps two keyed stores, one of users and one of leave requests. Balances,
  day counts and millisecond instants are JavaScript numbers; \<open>nat64\<close> timestamps are
  64-bit words. A store is an association list: \<open>get\<close> is
  \<open>map_of\<close>, \<open>insert\<close> is \<open>AList.update\<close>, \<open>remove\<close> is \<open>AList.delete\<close> and
  \<open>values()\<close> lists the stored records. The order in which the B-tree lists its values
  is not modelled; the code only uses \<open>values()\<close> through \<open>find\<close>, \<open>some\<close> and
  \<open>filter\<close>.
\<close>

datatype LeaveStatus = PENDING | APPROVED | REJECTED

record User =
  u_id :: string
  u_name :: string
  u_email :: string
  u_availableDays :: number
  u_createdAt :: "64 word"
  u_updatedAt :: "64 word option"

text \<open>\<open>availableDays?: number\<close>: \<open>None\<close> is a payload without that key.\<close>

record UserPayload =
  up_name :: string
  up_email :: string
  up_availableDays :: "number option"

record Leave =
  l_id :: string
  l_userId :: string
  l_startDate :: number
  l_endDate :: number
  l_days :: number
  l_status :: LeaveStatus
  l_createdAt :: "64 word"
  l_updatedAt :: "64 word option"

record LeavePayload =
  lp_startDate :: number
  lp_endDate :: number

record store =
  leaveStorage :: "(string \<times> Leave) list"
  userStorage :: "(string \<times> User) list"

definition emptyStore :: store where
  "emptyStore = \<lparr>leaveStorage = [], userStorage = []\<rparr>"

definition DEFAULT_AVAILABLE_DAYS :: number where
  "DEFAULT_AVAILABLE_DAYS = Fin 21"

text \<open>
  The error strings of the source, one constructor per message:
  \<^item> \<open>InvalidUserId\<close>: "Please enter a valid User ID!"
  \<^item> \<open>InvalidLeaveId\<close>: "Please enter a valid Leave ID!"
  \<^item> \<open>UserNotFound id\<close>: "User with ID ... not found!"
  \<^item> \<open>LeaveNotFound id\<close>: "Leave with ID ... not found!"
  \<^item> \<open>NameEmailRequired\<close>: "Name and Email are required. Please provide valid data."
  \<^item> \<open>NameEmailEmpty\<close>: "Name and Email cannot be empty. Please provide valid data."
  \<^item> \<open>EmailExists\<close>: "User with this email already exists!"
  \<^item> \<open>InvalidStatus\<close>: "Please enter a valid status (PENDING, APPROVED, or REJECTED)."
  \<^item> \<open>OwnerNotFound\<close>: "User with the given ID was not found."
  \<^item> \<open>StartNotBeforeEnd\<close>: "Start date must be before end date."
  \<^item> \<open>NotCurrentYear\<close>: "Leave period should be in the current calendar year."
  \<^item> \<open>LessThanOneDay\<close>: "Leave should be at least one day."
  \<^item> \<open>ExceedingAvailableDays\<close>: "You are exceeding your available days for leave."
  \<^item> \<open>Overlapping\<close>: "The chosen leave period overlaps with an existing leave."
  \<^item> \<open>CouldNotUpdate\<close>: "Could not update the user's leave status. Something went wrong!"
\<close>

datatype error =
    InvalidUserId
  | InvalidLeaveId
  | UserNotFound string
  | LeaveNotFound string
  | NameEmailRequired
  | NameEmailEmpty
  | EmailExists
  | InvalidStatus
  | OwnerNotFound
  | StartNotBeforeEnd
  | NotCurrentYear
  | LessThanOneDay
  | ExceedingAvailableDays
  | Overlapping
  | CouldNotUpdate

text \<open>
  What the code takes from outside the repository. \<open>lib\<close> holds the two library
  functions whose result depends only on their argument: \<open>validate\<close> of the uuid package
  and the calendar year of a time value (\<open>new Date(ms).getFullYear()\<close>, NaN for an
  invalid date).
  \<open>env\<close> holds what one call observes of its host: the identifier \<open>uuidv4()\<close> returns,
  \<open>ic.time()\<close>, and the instant \<open>new Date()\<close> reads.
\<close>

record lib =
  isValidUUID :: "string \<Rightarrow> bool"
  getFullYear :: "number \<Rightarrow> number"

record env =
  uuidv4 :: string
  ic_time :: "64 word"
  dateNow :: number

definition values_of :: "(string \<times> 'v) list \<Rightarrow> 'v list" where
  "values_of al = map snd al"

section \<open>Helpers (lines 375-425)\<close>

definition oneDay :: number where
  "oneDay = Fin (24 * 60 * 60 * 1000)"

definition findDiffInDays :: "number \<Rightarrow> number \<Rightarrow> number" where
  "findDiffInDays startDate endDate =
     (let diffDays = jsRound (fabs (fdiv (fsub endDate startDate) oneDay))
      in jsMax (Fin 1) diffDays)"

section \<open>User management (lines 63-171)\<close>

definition getUser :: "lib \<Rightarrow> string \<Rightarrow> store \<Rightarrow> error + User" where
  "getUser L idv st =
     (if \<not> isValidUUID L idv then Inl InvalidUserId
      else case map_of (userStorage st) idv of
             Some userData \<Rightarrow> Inr userData
           | None \<Rightarrow> Inl (UserNotFound idv))"

definition getUsers :: "store \<Rightarrow> error + User list" where
  "getUsers st = Inr (values_of (userStorage st))"

definition addUser :: "env \<Rightarrow> UserPayload \<Rightarrow> store \<Rightarrow> (error + User) \<times> store" where
  "addUser E payload st =
     (if up_name payload = [] \<or> up_email payload = [] then (Inl NameEmailRequired, st)
      else case List.find (\<lambda>user. u_email user = up_email payload)
                  (values_of (userStorage st)) of
             Some isUserExists \<Rightarrow> (Inl EmailExists, st)
           | None \<Rightarrow>
               let availableDays =
                     (case up_availableDays payload of
                        Some d \<Rightarrow> d | None \<Rightarrow> DEFAULT_AVAILABLE_DAYS);
                   user = \<lparr>u_id = uuidv4 E, u_name = up_name payload,
                           u_email = up_email payload, u_availableDays = availableDays,
                           u_createdAt = ic_time E, u_updatedAt = None\<rparr>
               in (Inr user, st\<lparr>userStorage := AList.update (u_id user) user (userStorage st)\<rparr>))"

definition updateUser ::
  "lib \<Rightarrow> env \<Rightarrow> string \<Rightarrow> UserPayload \<Rightarrow> store \<Rightarrow> (error + User) \<times> store" where
  "updateUser L E idv payload st =
     (if \<not> isValidUUID L idv then (Inl InvalidUserId, st)
      else if up_name payload = [] \<or> up_email payload = [] then (Inl NameEmailEmpty, st)
      else case map_of (userStorage st) idv of
             Some user \<Rightarrow>
               let updatedUser = user\<lparr>u_name := up_name payload,
                                      u_email := up_email payload,
                                      u_availableDays :=
                                        (case up_availableDays payload of
                                           Some d \<Rightarrow> d | None \<Rightarrow> u_availableDays user),
                                      u_updatedAt := Some (ic_time E)\<rparr>
               in (Inr updatedUser,
                   st\<lparr>userStorage := AList.update (u_id user) updatedUser (userStorage st)\<rparr>)
           | None \<Rightarrow> (Inl (UserNotFound idv), st))"

definition deleteUser :: "lib \<Rightarrow> string \<Rightarrow> store \<Rightarrow> (error + User) \<times> store" where
  "deleteUser L idv st =
     (if \<not> isValidUUID L idv then (Inl InvalidUserId, st)
      else case map_of (userStorage st) idv of
             Some deletedUser \<Rightarrow>
               (Inr deletedUser, st\<lparr>userStorage := AList.delete idv (userStorage st)\<rparr>)
           | None \<Rightarrow> (Inl (UserNotFound idv), st))"

text \<open>
  \<open>updateUsersAvailableDays\<close> (lines 384-412). The guard \<open>!user.Ok.availableDays\<close> is true
  of a balance of 0 (and of NaN), so a user with no days left takes the error branch. The
  payload handed to \<open>updateUser\<close> is the stored user with the new balance.
\<close>

datatype operation = ADD | SUBTRACT

definition updateUsersAvailableDays ::
  "lib \<Rightarrow> env \<Rightarrow> string \<Rightarrow> number \<Rightarrow> operation \<Rightarrow> store \<Rightarrow> (error + User) \<times> store" where
  "updateUsersAvailableDays L E userId leaveDays operation st =
     (if \<not> isValidUUID L userId then (Inl InvalidUserId, st)
      else case getUser L userId st of
             Inl e \<Rightarrow> (Inl CouldNotUpdate, st)
           | Inr user \<Rightarrow>
               if falsy (u_availableDays user) then (Inl CouldNotUpdate, st)
               else
                 let availableDays =
                       (case operation of
                          ADD \<Rightarrow> fadd (u_availableDays user) leaveDays
                        | SUBTRACT \<Rightarrow> fsub (u_availableDays user) leaveDays)
                 in updateUser L E userId
                      \<lparr>up_name = u_name user, up_email = u_email user,
                       up_availableDays = Some availableDays\<rparr> st)"

section \<open>Leave management (lines 173-373)\<close>

definition getLeaveRequests :: "store \<Rightarrow> error + Leave list" where
  "getLeaveRequests st = Inr (values_of (leaveStorage st))"

text \<open>
  Line 195: the callback \<open>({ userId }) => userId === userId\<close> binds \<open>userId\<close> to the field
  of the leave, so both sides of the comparison are that field and the parameter of
  \<open>getUsersLeaveRequests\<close> is not read.
\<close>

definition getUsersLeaveRequests :: "lib \<Rightarrow> string \<Rightarrow> store \<Rightarrow> error + Leave list" where
  "getUsersLeaveRequests L userId st =
     (if \<not> isValidUUID L userId then Inl InvalidUserId
      else Inr (filter (\<lambda>leave. let userId' = l_userId leave in userId' = userId')
                  (values_of (leaveStorage st))))"

definition getLeaveRequestsByStatus :: "LeaveStatus \<Rightarrow> store \<Rightarrow> error + Leave list" where
  "getLeaveRequestsByStatus status st =
     (if status \<notin> set [PENDING, APPROVED, REJECTED] then Inl InvalidStatus
      else Inr (filter (\<lambda>leave. l_status leave = status) (values_of (leaveStorage st))))"

definition isOverlapping :: "number \<Rightarrow> number \<Rightarrow> Leave list \<Rightarrow> bool" where
  "isOverlapping startDate endDate leaves =
     list_ex (\<lambda>currentLeave.
        \<not> (js_lt endDate (l_startDate currentLeave)
           \<or> js_gt startDate (l_endDate currentLeave))) leaves"

definition requestLeave ::
  "lib \<Rightarrow> env \<Rightarrow> string \<Rightarrow> LeavePayload \<Rightarrow> store \<Rightarrow> (error + Leave) \<times> store" where
  "requestLeave L E userId payload st =
     (if \<not> isValidUUID L userId then (Inl InvalidUserId, st)
      else case getUser L userId st of
             Inl e \<Rightarrow> (Inl OwnerNotFound, st)
           | Inr user \<Rightarrow>
               let startDate = lp_startDate payload; endDate = lp_endDate payload in
               if js_ge startDate endDate then (Inl StartNotBeforeEnd, st)
               else
                 let currentYear = getFullYear L (dateNow E) in
                 if \<not> js_eq (getFullYear L startDate) currentYear
                    \<or> \<not> js_eq (getFullYear L endDate) currentYear
                 then (Inl NotCurrentYear, st)
                 else
                   let diffDays = findDiffInDays (lp_startDate payload) (lp_endDate payload) in
                   if js_lt diffDays (Fin 1) then (Inl LessThanOneDay, st)
                   else if js_lt (u_availableDays user) diffDays
                   then (Inl ExceedingAvailableDays, st)
                   else
                     let leaves = filter (\<lambda>leave. l_userId leave = userId)
                                    (values_of (leaveStorage st)) in
                     if isOverlapping startDate endDate leaves then (Inl Overlapping, st)
                     else
                       let leave = \<lparr>l_id = uuidv4 E, l_userId = userId,
                                    l_startDate = lp_startDate payload,
                                    l_endDate = lp_endDate payload,
                                    l_days = diffDays, l_status = PENDING,
                                    l_createdAt = ic_time E, l_updatedAt = None\<rparr>;
                           st1 = st\<lparr>leaveStorage :=
                                      AList.update (l_id leave) leave (leaveStorage st)\<rparr>;
                           st2 = snd (updateUsersAvailableDays L E userId diffDays SUBTRACT st1)
                       in (Inr leave, st2))"

definition updateLeave ::
  "lib \<Rightarrow> env \<Rightarrow> string \<Rightarrow> LeavePayload \<Rightarrow> store \<Rightarrow> (error + Leave) \<times> store" where
  "updateLeave L E idv payload st =
     (if \<not> isValidUUID L idv then (Inl InvalidLeaveId, st)
      else case map_of (leaveStorage st) idv of
             Some leave \<Rightarrow>
               let diffDays = findDiffInDays (lp_startDate payload) (lp_endDate payload) in
               if js_lt diffDays (Fin 1) then (Inl LessThanOneDay, st)
               else
                 let updatedLeave = leave\<lparr>l_startDate := lp_startDate payload,
                                          l_endDate := lp_endDate payload,
                                          l_days := diffDays,
                                          l_updatedAt := Some (ic_time E)\<rparr>
                 in (Inr updatedLeave,
                     st\<lparr>leaveStorage :=
                          AList.update (l_id leave) updatedLeave (leaveStorage st)\<rparr>)
           | None \<Rightarrow> (Inl (LeaveNotFound idv), st))"

definition deleteLeave :: "lib \<Rightarrow> string \<Rightarrow> store \<Rightarrow> (error + Leave) \<times> store" where
  "deleteLeave L idv st =
     (if \<not> isValidUUID L idv then (Inl InvalidLeaveId, st)
      else case map_of (leaveStorage st) idv of
             Some deletedLeave \<Rightarrow>
               (Inr deletedLeave, st\<lparr>leaveStorage := AList.delete idv (leaveStorage st)\<rparr>)
           | None \<Rightarrow> (Inl (LeaveNotFound idv), st))"

text \<open>
  \<open>updateLeaveStatus\<close> (lines 348-373) writes the leave first, then adjusts the balance
  and drops the result of the adjustment.
\<close>

definition updateLeaveStatus ::
  "lib \<Rightarrow> env \<Rightarrow> string \<Rightarrow> LeaveStatus \<Rightarrow> store \<Rightarrow> (error + Leave) \<times> store" where
  "updateLeaveStatus L E idv status st =
     (if \<not> isValidUUID L idv then (Inl InvalidLeaveId, st)
      else case map_of (leaveStorage st) idv of
             Some leave \<Rightarrow>
               let updatedLeave = leave\<lparr>l_status := status, l_updatedAt := Some (ic_time E)\<rparr>;
                   st1 = st\<lparr>leaveStorage :=
                              AList.update (l_id leave) updatedLeave (leaveStorage st)\<rparr>;
                   st2 = (if status = REJECTED
                          then snd (updateUsersAvailableDays L E (l_userId leave)
                                      (l_days leave) ADD st1)
                          else snd (updateUsersAvailableDays L E (l_userId leave)
                                      (l_days leave) SUBTRACT st1))
               in (Inr updatedLeave, st2)
           | None \<Rightarrow> (Inl (LeaveNotFound idv), st))"

section \<open>Sequences of calls\<close>

text \<open>
  The update entry points of the service, and the store after a sequence of calls, each
  made with what its host call observes.
\<close>

datatype call =
    AddUser UserPayload
  | UpdateUser string UserPayload
  | DeleteUser string
  | RequestLeave string LeavePayload
  | UpdateLeave string LeavePayload
  | DeleteLeave string
  | UpdateLeaveStatus string LeaveStatus

fun exec :: "lib \<Rightarrow> env \<Rightarrow> call \<Rightarrow> store \<Rightarrow> store" where
  "exec L E (AddUser p) st = snd (addUser E p st)"
| "exec L E (UpdateUser i p) st = snd (updateUser L E i p st)"
| "exec L E (DeleteUser i) st = snd (deleteUser L i st)"
| "exec L E (RequestLeave u p) st = snd (requestLeave L E u p st)"
| "exec L E (UpdateLeave i p) st = snd (updateLeave L E i p st)"
| "exec L E (DeleteLeave i) st = snd (deleteLeave L i st)"
| "exec L E (UpdateLeaveStatus i s) st = snd (updateLeaveStatus L E i s st)"

fun run :: "lib \<Rightarrow> (env \<times> call) list \<Rightarrow> store \<Rightarrow> store" where
  "run L [] st = st"
| "run L ((E, c) # cs) st = run L cs (exec L E c st)"

section \<open>Well-formed stores\<close>

text \<open>
  What every store built by the entry points satisfies: a record sits under its own
  identifier, a stored user has a name and an email, and a stored leave names a
  well-formed owner identifier.
\<close>

definition wf_store :: "lib \<Rightarrow> store \<Rightarrow> bool" where
  "wf_store L st \<longleftrightarrow>
     list_all (\<lambda>(k, u). u_id u = k \<and> u_name u \<noteq> [] \<and> u_email u \<noteq> []) (userStorage st)
     \<and> list_all (\<lambda>(k, l). l_id l = k \<and> isValidUUID L (l_userId l)) (leaveStorage st)"

section \<open>A concrete host for the examples\<close>

text \<open>
  The examples run the code with a validator that accepts the 8-4-4-4-12 hexadecimal
  shape, and with the UTC calendar year of ECMAScript: a time value is a finite number of
  at most \<open>8.64e15\<close> in absolute value, truncated to an integer, and its year is
  \<open>YearFromTime\<close> (through \<open>DayFromYear\<close>); every other number is an invalid date, whose
  year is NaN. \<open>jan2026 n\<close> is midnight UTC of the n-th of January 2026.
\<close>

definition uuidShape :: "string \<Rightarrow> bool" where
  "uuidShape s \<longleftrightarrow>
     map (\<lambda>c. if c = CHR ''-'' then CHR ''-''
              else if c \<in> set ''0123456789abcdefABCDEF'' then CHR ''h'' else CHR ''?'') s
       = ''hhhhhhhh-hhhh-hhhh-hhhh-hhhhhhhhhhhh''"

definition dayFromYear :: "int \<Rightarrow> int" where
  "dayFromYear y = 365 * (y - 1970) + (y - 1969) div 4 - (y - 1901) div 100 + (y - 1601) div 400"

definition yearFromTime :: "int \<Rightarrow> int" where
  "yearFromTime t =
     (let d = t div 86400000; c = 1970 + (400 * d) div 146097
      in if dayFromYear (c + 1) \<le> d then c + 1 else if dayFromYear c \<le> d then c else c - 1)"

definition validTime :: "number \<Rightarrow> bool" where
  "validTime x = (case x of Fin t \<Rightarrow> \<bar>t\<bar> \<le> 8640000000000000 | _ \<Rightarrow> False)"

definition utcFullYear :: "number \<Rightarrow> number" where
  "utcFullYear x =
     (case x of
        Fin t \<Rightarrow> if \<bar>t\<bar> \<le> 8640000000000000
                 then Fin (of_int (yearFromTime (if 0 \<le> t then \<lfloor>t\<rfloor> else \<lceil>t\<rceil>)))
                 else NaN
      | _ \<Rightarrow> NaN)"

definition exLib :: lib where
  "exLib = \<lparr>isValidUUID = uuidShape, getFullYear = utcFullYear\<rparr>"

definition jan2026 :: "int \<Rightarrow> number" where
  "jan2026 n = Fin (of_int (1767225600000 + (n - 1) * 86400000))"

definition exEnv :: "string \<Rightarrow> env" where
  "exEnv i = \<lparr>uuidv4 = i, ic_time = 0, dateNow = jan2026 5\<rparr>"

definition idA :: string where "idA = ''11111111-1111-4111-8111-111111111111''"

definition idB :: string where "idB = ''22222222-2222-4222-8222-222222222222''"

definition idL :: string where "idL = ''33333333-3333-4333-8333-333333333333''"

definition userA :: "number \<Rightarrow> User" where
  "userA b = \<lparr>u_id = idA, u_name = ''Ann'', u_email = ''ann@example.org'',
              u_availableDays = b, u_createdAt = 0, u_updatedAt = None\<rparr>"

definition leaveA :: "int \<Rightarrow> int \<Rightarrow> Leave" where
  "leaveA a b = \<lparr>l_id = idL, l_userId = idA, l_startDate = jan2026 a, l_endDate = jan2026 b,
                 l_days = Fin (of_int (b - a)), l_status = PENDING, l_createdAt = 0,
                 l_updatedAt = None\<rparr>"

definition annPayload :: "number option \<Rightarrow> UserPayload" where
  "annPayload b = \<lparr>up_name = ''Ann'', up_email = ''ann@example.org'', up_availableDays = b\<rparr>"

definition bobPayload :: "string \<Rightarrow> UserPayload" where
  "bobPayload e = \<lparr>up_name = ''Bob'', up_email = e, up_availableDays = None\<rparr>"

definition period :: "int \<Rightarrow> int \<Rightarrow> LeavePayload" where
  "period a b = \<lparr>lp_startDate = jan2026 a, lp_endDate = jan2026 b\<rparr>"

text \<open>
  \<open>stAnn b\<close> is the store after Ann registered with the balance \<open>b\<close>; \<open>stAnnWith b l\<close> is
  the store in which she holds the request \<open>l\<close> and has the balance \<open>b\<close>, and
  \<open>stAnnLeave b x y\<close> is that store for the request \<open>leaveA x y\<close>.
\<close>

definition stAnn :: "number \<Rightarrow> store" where
  "stAnn b = \<lparr>leaveStorage = [], userStorage = [(idA, userA b)]\<rparr>"

definition stAnnWith :: "number \<Rightarrow> Leave \<Rightarrow> store" where
  "stAnnWith b l =
     \<lparr>leaveStorage = [(idL, l)], userStorage = [(idA, (userA b)\<lparr>u_updatedAt := Some 0\<rparr>)]\<rparr>"

definition stAnnLeave :: "number \<Rightarrow> int \<Rightarrow> int \<Rightarrow> store" where
  "stAnnLeave b x y = stAnnWith b (leaveA x y)"

section \<open>The balance invariant\<close>

text \<open>
  \<open>nonneg_balances\<close> is \<open>availableDays >= 0\<close> for every stored user, as JavaScript compares:
  it fails for a negative balance and for NaN. \<open>whole_days\<close> says that every stored request
  charges a finite number of at least one day.
\<close>

definition nonneg_balances :: "store \<Rightarrow> bool" where
  "nonneg_balances st \<longleftrightarrow>
     list_all (\<lambda>u. js_ge (u_availableDays u) (Fin 0)) (values_of (userStorage st))"

definition whole_days :: "store \<Rightarrow> bool" where
  "whole_days st \<longleftrightarrow>
     list_all (\<lambda>l. case l_days l of Fin d \<Rightarrow> 1 \<le> d | _ \<Rightarrow> False) (values_of (leaveStorage st))"

text \<open>
  The calls that cannot take a balance below zero in the store they are made on: a user
  payload whose balance, when it has one, is \<open>>= 0\<close>; a request or an edit whose two dates
  are time values (finite, at most \<open>8.64e15\<close> in absolute value); a status update that either
  rejects or charges no more than its owner has left. Deletions are unrestricted.
\<close>

fun safe_call :: "store \<Rightarrow> call \<Rightarrow> bool" where
  "safe_call st (AddUser p) =
     (case up_availableDays p of Some d \<Rightarrow> js_ge d (Fin 0) | None \<Rightarrow> True)"
| "safe_call st (UpdateUser i p) =
     (case up_availableDays p of Some d \<Rightarrow> js_ge d (Fin 0) | None \<Rightarrow> True)"
| "safe_call st (RequestLeave u p) = (validTime (lp_startDate p) \<and> validTime (lp_endDate p))"
| "safe_call st (UpdateLeave i p) = (validTime (lp_startDate p) \<and> validTime (lp_endDate p))"
| "safe_call st (UpdateLeaveStatus i s) =
     (s = REJECTED \<or>
      (case map_of (leaveStorage st) i of
         None \<Rightarrow> True
       | Some leave \<Rightarrow>
           (case map_of (userStorage st) (l_userId leave) of
              None \<Rightarrow> True
            | Some owner \<Rightarrow> js_le (l_days leave) (u_availableDays owner))))"
| "safe_call st (DeleteUser i) = True"
| "safe_call st (DeleteLeave i) = True"

fun safe_run :: "lib \<Rightarrow> (env \<times> call) list \<Rightarrow> store \<Rightarrow> bool" where
  "safe_run L [] st = True"
| "safe_run L ((E, c) # cs) st = (safe_call st c \<and> safe_run L cs (exec L E c st))"

section \<open>Rounding to a double\<close>

declare bitLen.simps [simp del]

lemma bitLen_nonneg: "0 \<le> bitLen x"
  by (induction x rule: bitLen.induct) (simp add: bitLen.simps)

lemma bitLen_pos: "0 < x \<Longrightarrow> 1 \<le> bitLen x"
  using bitLen_nonneg [of "x div 2"] by (simp add: bitLen.simps [of x])

lemma bitLen_bounds:
  "0 < x \<Longrightarrow> 2 ^ nat (bitLen x - 1) \<le> x \<and> x < 2 ^ nat (bitLen x)"
proof (induction x rule: bitLen.induct)
  case (1 a)
  have b: "bitLen a = bitLen (a div 2) + 1"
    using "1.prems" by (simp add: bitLen.simps [of a])
  show ?case
  proof (cases "a div 2 = 0")
    case True
    then have a: "a = 1" using "1.prems" by auto
    have "bitLen (1 div 2) = 0"
      by (simp add: bitLen.simps [of 0])
    then show ?thesis
      using b by (simp add: a)
  next
    case False
    then have h: "0 < a div 2" using "1.prems" by simp
    let ?k = "bitLen (a div 2)"
    have ih: "2 ^ nat (?k - 1) \<le> a div 2" "a div 2 < 2 ^ nat ?k"
      using "1.IH" "1.prems" h by simp_all
    have k: "1 \<le> ?k" using h by (rule bitLen_pos)
    have "(2::int) * 2 ^ nat (?k - 1) = 2 ^ nat ?k"
    proof -
      have "nat ?k = Suc (nat (?k - 1))" using k by simp
      then show ?thesis by simp
    qed
    then have lo: "2 ^ nat ?k \<le> a" using ih(1) by linarith
    have hi: "a < 2 * 2 ^ nat ?k" using ih(2) by linarith
    have "nat (?k + 1) = Suc (nat ?k)" using k by simp
    then show ?thesis
      using lo hi by (simp add: b)
  qed
qed

lemma pow2_pos [simp]: "0 < pow2 p"
  by (simp add: pow2_def)

lemma pow2_nonneg [simp]: "0 \<le> pow2 p"
  by (simp add: pow2_def)

lemma pow2_not_le_0 [simp]: "\<not> pow2 p \<le> 0"
  using pow2_pos [of p] by (simp only: not_le)

lemma pow2_neq_0 [simp]: "pow2 p \<noteq> 0"
  by (simp add: pow2_def)

lemma pow2_nat: "0 \<le> p \<Longrightarrow> pow2 p = 2 ^ nat p"
  by (simp add: pow2_def power_int_nonneg_exp)

lemma pow2_neg: "0 \<le> p \<Longrightarrow> pow2 (- p) = 1 / 2 ^ nat p"
  by (simp add: pow2_def power_int_minus_divide power_int_nonneg_exp)

lemma pow2_add: "pow2 (p + q) = pow2 p * pow2 q"
  by (simp add: pow2_def power_int_add)

lemma pow2_less_iff [simp]: "pow2 p < pow2 q \<longleftrightarrow> p < q"
proof
  assume "pow2 p < pow2 q"
  show "p < q"
  proof (rule ccontr)
    assume "\<not> p < q"
    then have "q \<le> p" by simp
    then have "pow2 q \<le> pow2 p"
      unfolding pow2_def by (intro power_int_increasing) simp_all
    with \<open>pow2 p < pow2 q\<close> show False by simp
  qed
next
  assume "p < q"
  then show "pow2 p < pow2 q"
    unfolding pow2_def by (intro power_int_strict_increasing) simp_all
qed

lemma pow2_le_iff [simp]: "pow2 p \<le> pow2 q \<longleftrightarrow> p \<le> q"
  using pow2_less_iff [of q p] by (auto simp: not_less [symmetric] simp del: pow2_less_iff)

lemma ilog2_lower: "0 < x \<Longrightarrow> pow2 (ilog2 x) \<le> x"
proof (cases "1 \<le> x")
  case True
  then have n: "0 < \<lfloor>x\<rfloor>" by simp
  have b: "1 \<le> bitLen \<lfloor>x\<rfloor>"
    using n by (rule bitLen_pos)
  have "(2::int) ^ nat (bitLen \<lfloor>x\<rfloor> - 1) \<le> \<lfloor>x\<rfloor>"
    using bitLen_bounds [OF n] by simp
  then have "of_int ((2::int) ^ nat (bitLen \<lfloor>x\<rfloor> - 1)) \<le> (of_int \<lfloor>x\<rfloor> :: rat)"
    by (simp only: of_int_le_iff)
  also have "\<dots> \<le> x" by simp
  finally have "(2::rat) ^ nat (bitLen \<lfloor>x\<rfloor> - 1) \<le> x" by simp
  then show ?thesis
    using True b by (simp add: ilog2_def pow2_nat)
next
  case False
  assume x: "0 < x"
  let ?c = "\<lceil>1 / x\<rceil>"
  let ?j = "bitLen (?c - 1)"
  have "1 < 1 / x" using False x by simp
  then have c: "2 \<le> ?c" by (simp add: le_ceiling_iff)
  then have "?c - 1 < 2 ^ nat ?j"
    using bitLen_bounds [of "?c - 1"] by simp
  then have "?c \<le> 2 ^ nat ?j" by simp
  then have "(of_int ?c :: rat) \<le> of_int (2 ^ nat ?j)"
    by (simp only: of_int_le_iff)
  then have "(of_int ?c :: rat) \<le> 2 ^ nat ?j" by simp
  then have "1 / x \<le> 2 ^ nat ?j"
    by (rule order_trans [OF le_of_int_ceiling])
  then have "1 / 2 ^ nat ?j \<le> x"
    using x by (simp add: field_simps)
  then show ?thesis
    using False bitLen_nonneg [of "?c - 1"] by (simp add: ilog2_def pow2_neg)
qed

lemma ilog2_upper: "0 < x \<Longrightarrow> x < pow2 (ilog2 x + 1)"
proof (cases "1 \<le> x")
  case True
  then have n: "0 < \<lfloor>x\<rfloor>" by simp
  have b: "1 \<le> bitLen \<lfloor>x\<rfloor>"
    using n by (rule bitLen_pos)
  have "\<lfloor>x\<rfloor> < (2::int) ^ nat (bitLen \<lfloor>x\<rfloor>)"
    using bitLen_bounds [OF n] by simp
  then have "\<lfloor>x\<rfloor> + 1 \<le> (2::int) ^ nat (bitLen \<lfloor>x\<rfloor>)" by simp
  then have "(of_int (\<lfloor>x\<rfloor> + 1) :: rat) \<le> of_int ((2::int) ^ nat (bitLen \<lfloor>x\<rfloor>))"
    by (simp only: of_int_le_iff)
  moreover have "x < of_int (\<lfloor>x\<rfloor> + 1)"
    by linarith
  ultimately have "x < (2::rat) ^ nat (bitLen \<lfloor>x\<rfloor>)" by simp
  then show ?thesis
    using True b by (simp add: ilog2_def pow2_nat)
next
  case False
  assume x: "0 < x"
  let ?c = "\<lceil>1 / x\<rceil>"
  let ?j = "bitLen (?c - 1)"
  have "1 < 1 / x" using False x by simp
  then have c: "2 \<le> ?c" by (simp add: le_ceiling_iff)
  then have j: "1 \<le> ?j"
    by (intro bitLen_pos) simp
  have "2 ^ nat (?j - 1) \<le> ?c - 1"
    using bitLen_bounds [of "?c - 1"] c by simp
  then have "(of_int (2 ^ nat (?j - 1)) :: rat) \<le> of_int (?c - 1)"
    by (simp only: of_int_le_iff)
  moreover have "of_int (?c - 1) < 1 / x"
    by linarith
  ultimately have "(2::rat) ^ nat (?j - 1) < 1 / x" by simp
  then have "x < 1 / 2 ^ nat (?j - 1)"
    using x by (simp add: field_simps)
  moreover have "pow2 (- ?j + 1) = 1 / 2 ^ nat (?j - 1)"
    using pow2_neg [of "?j - 1"] j by simp
  ultimately show ?thesis
    using False by (simp add: ilog2_def)
qed

lemma ilog2_eqI:
  assumes "pow2 e \<le> x" "x < pow2 (e + 1)"
  shows "ilog2 x = e"
proof -
  have x: "0 < x"
    using assms(1) pow2_pos [of e] by linarith
  have "pow2 (ilog2 x) < pow2 (e + 1)"
    using ilog2_lower [OF x] assms(2) by linarith
  then have a: "ilog2 x < e + 1" by simp
  have "pow2 e < pow2 (ilog2 x + 1)"
    using ilog2_upper [OF x] assms(1) by linarith
  then have "e < ilog2 x + 1" by simp
  with a show ?thesis by simp
qed

lemma rhe_of_int [simp]: "rhe (of_int k) = k"
  by (simp add: rhe_def)

lemma rhe_0 [simp]: "rhe 0 = 0"
  by (simp add: rhe_def)

lemma rhe_cases: "rhe z = \<lfloor>z\<rfloor> \<or> rhe z = \<lfloor>z\<rfloor> + 1 \<and> of_int \<lfloor>z\<rfloor> < z"
  unfolding rhe_def Let_def by auto

lemma rhe_upper: "of_int (rhe z) \<le> z + 1 / 2"
proof -
  have "of_int \<lfloor>z\<rfloor> \<le> z" by simp
  then show ?thesis
    unfolding rhe_def Let_def by (simp only: split: if_splits) (intro conjI impI; simp; linarith)
qed

lemma rhe_lower: "z - 1 / 2 \<le> of_int (rhe z)"
proof -
  have "z < of_int \<lfloor>z\<rfloor> + 1" by linarith
  then show ?thesis
    unfolding rhe_def Let_def by (simp only: split: if_splits) (intro conjI impI; simp; linarith)
qed

lemma rhe_ge_int: "of_int k \<le> z \<Longrightarrow> k \<le> rhe z"
proof -
  assume "of_int k \<le> z"
  then have "k \<le> \<lfloor>z\<rfloor>" by (simp add: le_floor_iff)
  then show ?thesis using rhe_cases [of z] by auto
qed

lemma rhe_le_int: "z \<le> of_int k \<Longrightarrow> rhe z \<le> k"
proof -
  assume z: "z \<le> of_int k"
  from rhe_cases [of z] show ?thesis
  proof
    assume "rhe z = \<lfloor>z\<rfloor>"
    then show ?thesis using z by (simp add: floor_le_iff)
  next
    assume a: "rhe z = \<lfloor>z\<rfloor> + 1 \<and> of_int \<lfloor>z\<rfloor> < z"
    then have "of_int \<lfloor>z\<rfloor> < (of_int k :: rat)" using z by simp
    then have "\<lfloor>z\<rfloor> < k" by (simp only: of_int_less_iff)
    then show ?thesis using a by simp
  qed
qed

lemma fl_0 [simp]: "fl 0 = Fin 0"
proof -
  have "\<not> pow2 1024 \<le> 0"
    using pow2_pos [of 1024] by linarith
  then show ?thesis
    by (simp add: fl_def flpos_def Let_def)
qed

lemma fneg_fneg [simp]: "fneg (fneg y) = y"
  by (cases y) simp_all

lemma fl_minus: "fl (- x) = fneg (fl x)"
proof (cases "x = 0")
  case True
  then show ?thesis by simp
next
  case False
  then show ?thesis by (auto simp: fl_def)
qed

lemma flpos_exact:
  assumes "x / pow2 (max (ilog2 x - 52) (- 1074)) = of_int k" and "x < pow2 1024"
  shows "flpos x = Fin x"
proof -
  let ?p = "max (ilog2 x - 52) (- 1074)"
  have "of_int k * pow2 ?p = x"
    using assms(1) pow2_pos [of ?p] by (simp add: field_simps)
  then show ?thesis
    using assms by (simp add: flpos_def Let_def)
qed

lemma pow2_53: "pow2 53 = 9007199254740992"
  by (simp add: pow2_nat)

lemma fl_nat:
  assumes "0 < n" "n \<le> 9007199254740992"
  shows "flpos (of_int n) = Fin (of_int n)"
proof -
  let ?x = "of_int n :: rat"
  let ?e = "ilog2 ?x"
  have x: "0 < ?x" "1 \<le> ?x" using assms by simp_all
  have "pow2 0 \<le> ?x" using x by (simp add: pow2_def)
  then have "pow2 0 < pow2 (?e + 1)"
    using ilog2_upper [OF x(1)] by linarith
  then have e0: "0 \<le> ?e" by simp
  have "?x \<le> of_int 9007199254740992"
    using assms(2) by (simp only: of_int_le_iff)
  then have x53: "?x \<le> pow2 53"
    unfolding pow2_53 by simp
  then have "pow2 ?e \<le> pow2 53"
    using ilog2_lower [OF x(1)] by linarith
  then have e53: "?e \<le> 53" by simp
  have small: "?x < pow2 1024"
  proof -
    have "pow2 53 < pow2 1024" by simp
    with x53 show ?thesis by linarith
  qed
  have p: "max (?e - 52) (- 1074) = ?e - 52"
    using e0 by simp
  show ?thesis
  proof (cases "?e \<le> 52")
    case True
    then have "pow2 (?e - 52) = 1 / 2 ^ nat (52 - ?e)"
      using pow2_neg [of "52 - ?e"] by simp
    then have "?x / pow2 (?e - 52) = of_int (n * 2 ^ nat (52 - ?e))"
      by simp
    then show ?thesis
      using small by (intro flpos_exact) (simp_all only: p)
  next
    case False
    then have e: "?e = 53" using e53 by simp
    then have "pow2 53 \<le> ?x"
      using ilog2_lower [OF x(1)] by simp
    then have n: "?x = 9007199254740992"
      using x53 by (simp add: pow2_53)
    have "pow2 (?e - 52) = 2"
      using e by (simp add: pow2_nat)
    then have "?x / pow2 (?e - 52) = of_int 4503599627370496"
      using n by simp
    then show ?thesis
      using small by (intro flpos_exact) (simp_all only: p)
  qed
qed

lemma fl_int:
  assumes "\<bar>n\<bar> \<le> 9007199254740992"
  shows "fl (of_int n) = Fin (of_int n)"
proof -
  consider "n = 0" | "0 < n" | "n < 0" by linarith
  then show ?thesis
  proof cases
    case 1
    then show ?thesis by simp
  next
    case 2
    then show ?thesis
      using assms fl_nat [of n] by (simp add: fl_def)
  next
    case 3
    then have "flpos (of_int (- n)) = Fin (of_int (- n))"
      using assms by (intro fl_nat) simp_all
    then show ?thesis
      using 3 by (simp add: fl_def)
  qed
qed

lemma flpos_nonneg:
  assumes "0 \<le> x"
  shows "flpos x = PInf \<or> (\<exists>y. 0 \<le> y \<and> flpos x = Fin y)"
proof -
  let ?p = "max (ilog2 x - 52) (- 1074)"
  have "of_int 0 \<le> x / pow2 ?p"
    using assms pow2_pos [of ?p] by simp
  then have "0 \<le> rhe (x / pow2 ?p)"
    by (rule rhe_ge_int)
  then have "0 \<le> (of_int (rhe (x / pow2 ?p)) :: rat) * pow2 ?p"
    using pow2_pos [of ?p] by simp
  then show ?thesis
    by (auto simp: flpos_def Let_def)
qed

lemma fl_nonneg: "0 \<le> x \<Longrightarrow> fl x = PInf \<or> (\<exists>y. 0 \<le> y \<and> fl x = Fin y)"
  using flpos_nonneg [of x] by (simp add: fl_def)

lemma flpos_finite:
  assumes "0 \<le> x" "x < pow2 1023"
  shows "\<exists>y. 0 \<le> y \<and> y < pow2 1024 \<and> flpos x = Fin y"
proof (cases "x = 0")
  case True
  have "\<not> pow2 1024 \<le> 0" using pow2_pos [of 1024] by linarith
  then show ?thesis
    using True pow2_pos [of 1024] by (simp add: flpos_def Let_def)
next
  case False
  then have x: "0 < x" using assms by simp
  let ?p = "max (ilog2 x - 52) (- 1074)"
  let ?y = "(of_int (rhe (x / pow2 ?p)) :: rat) * pow2 ?p"
  have "pow2 (ilog2 x) < pow2 1023"
    using ilog2_lower [OF x] assms(2) by linarith
  then have "ilog2 x < 1023" by simp
  then have "?p \<le> 1022" by simp
  then have pp: "pow2 ?p \<le> pow2 1022" by (simp only: pow2_le_iff)
  have "?y \<le> (x / pow2 ?p + 1 / 2) * pow2 ?p"
    using rhe_upper [of "x / pow2 ?p"] pow2_pos [of ?p] by (simp only: mult_le_cancel_right_pos)
  also have "\<dots> = x + pow2 ?p / 2"
    using pow2_pos [of ?p] by (simp add: field_simps)
  also have "\<dots> < pow2 1023 + pow2 1022"
    using assms(2) pp pow2_pos [of ?p] by linarith
  also have "\<dots> < pow2 1024"
  proof -
    have "pow2 1023 = 2 * pow2 1022" "pow2 1024 = 4 * pow2 1022"
      using pow2_add [of 1022 1] pow2_add [of 1022 2] by (simp_all add: pow2_def)
    then show ?thesis using pow2_pos [of 1022] by linarith
  qed
  finally have lt: "?y < pow2 1024" .
  have "of_int 0 \<le> x / pow2 ?p"
    using assms pow2_pos [of ?p] by simp
  then have "0 \<le> rhe (x / pow2 ?p)" by (rule rhe_ge_int)
  then have "0 \<le> ?y" using pow2_pos [of ?p] by simp
  then show ?thesis
    using lt by (auto simp: flpos_def Let_def)
qed

lemma fl_finite:
  assumes "\<bar>x\<bar> < pow2 1023"
  shows "\<exists>y. \<bar>y\<bar> < pow2 1024 \<and> fl x = Fin y"
proof (cases "x < 0")
  case True
  then obtain y where "0 \<le> y" "y < pow2 1024" "flpos (- x) = Fin y"
    using flpos_finite [of "- x"] assms by auto
  then show ?thesis
    using True by (auto simp: fl_def)
next
  case False
  then obtain y where "0 \<le> y" "y < pow2 1024" "flpos x = Fin y"
    using flpos_finite [of x] assms by auto
  then show ?thesis
    using False by (auto simp: fl_def)
qed

lemma fl_quotient_round:
  fixes m :: int
  assumes "0 \<le> m" "m < 5798205849600000"
  shows "\<exists>y. fl (of_int m / 86400000) = Fin y \<and> 0 \<le> y
             \<and> \<lfloor>y + 1 / 2\<rfloor> = \<lfloor>(of_int m / 86400000 :: rat) + 1 / 2\<rfloor>"
proof (cases "m = 0")
  case True
  then show ?thesis by simp
next
  case False
  define q :: rat where "q = of_int m / 86400000"
  define p where "p = max (ilog2 q - 52) (- 1074)"
  define t where "t = nat (- p - 1)"
  define T :: rat where "T = 2 ^ t"
  define k where "k = \<lfloor>q + 1 / 2\<rfloor>"
  define r where "r = rhe (q / pow2 p)"
  define y where "y = of_int r * pow2 p"
  have m: "0 < m" using False assms(1) by simp
  then have q0: "0 < q" by (simp add: q_def)
  have "(of_int m :: rat) < of_int 5798205849600000"
    using assms(2) by (simp only: of_int_less_iff)
  then have q26: "q < 67108864" by (simp add: q_def)
  have p26: "pow2 26 = 67108864" by (simp add: pow2_nat)
  have "pow2 (ilog2 q) < pow2 26"
    using ilog2_lower [OF q0] q26 p26 by linarith
  then have "ilog2 q < 26" by simp
  then have p: "p \<le> - 27" by (simp add: p_def)
  then have t: "26 \<le> t" by (simp add: t_def)
  have "(2::rat) ^ 26 \<le> 2 ^ t"
    using t by (intro power_increasing) simp_all
  then have T: "67108864 \<le> T" by (simp add: T_def)
  have pp: "pow2 p = 1 / (2 * T)"
  proof -
    have "nat (- p) = Suc t" using p by (simp add: t_def)
    then show ?thesis
      using pow2_neg [of "- p"] p by (simp add: T_def)
  qed
  have z: "q / pow2 p = 2 * (q * T)"
    using T by (simp add: pp)
  have k1: "of_int k \<le> q + 1 / 2" and k2: "q + 1 / 2 < of_int k + 1"
    unfolding k_def by linarith+
  have lowT: "(2 * of_int k - 1) * T \<le> 2 * q * T"
    using k1 T by (intro mult_right_mono) simp_all
  have "2 * of_int m < (2 * of_int k + 1) * (86400000 :: rat)"
    using k2 by (simp add: q_def field_simps)
  then have "(of_int (2 * m) :: rat) < of_int ((2 * k + 1) * 86400000)"
    by simp
  then have "2 * m < (2 * k + 1) * 86400000"
    by (simp only: of_int_less_iff)
  then have "2 * m + 1 \<le> (2 * k + 1) * 86400000" by simp
  then have "(of_int (2 * m + 1) :: rat) \<le> of_int ((2 * k + 1) * 86400000)"
    by (simp only: of_int_le_iff)
  then have "2 * q + 1 / 86400000 \<le> 2 * of_int k + 1"
    by (simp add: q_def field_simps)
  then have "(2 * q + 1 / 86400000) * T \<le> (2 * of_int k + 1) * T"
    using T by (intro mult_right_mono) simp_all
  then have upT: "2 * q * T + T / 86400000 \<le> (2 * of_int k + 1) * T"
    by (simp add: algebra_simps)
  have half: "1 / 2 < T / 86400000"
    using T by simp
  have r1: "of_int ((2 * k - 1) * 2 ^ t) \<le> q / pow2 p"
    using lowT by (simp add: z T_def algebra_simps)
  have rl: "(2 * k - 1) * 2 ^ t \<le> r"
    unfolding r_def using r1 by (rule rhe_ge_int)
  have "of_int r \<le> q / pow2 p + 1 / 2"
    unfolding r_def by (rule rhe_upper)
  also have "\<dots> < (2 * of_int k + 1) * T"
    using upT half by (simp add: z algebra_simps)
  finally have ru: "(of_int r :: rat) < (2 * of_int k + 1) * T" .
  have yr: "y = of_int r / (2 * T)"
    by (simp add: y_def pp)
  have Tpos: "0 < T" using T by linarith
  have "(2 * of_int k - 1) * T \<le> (of_int r :: rat)"
  proof -
    have "(of_int ((2 * k - 1) * 2 ^ t) :: rat) \<le> of_int r"
      using rl by (simp only: of_int_le_iff)
    then show ?thesis by (simp add: T_def)
  qed
  then have yl: "of_int k \<le> y + 1 / 2"
    using Tpos by (simp add: yr field_simps)
  have yu: "y + 1 / 2 < of_int k + 1"
    using ru Tpos by (simp add: yr field_simps)
  have fk: "\<lfloor>y + 1 / 2\<rfloor> = k"
    using yl yu by (intro floor_unique) simp_all
  have y0: "0 \<le> y"
  proof -
    have "0 \<le> r"
      unfolding r_def using q0 by (intro rhe_ge_int) simp
    then show ?thesis by (simp add: y_def)
  qed
  have "y < of_int k + 1 / 2" using yu by simp
  also have "\<dots> \<le> q + 1" using k1 by simp
  also have "\<dots> < pow2 27"
    using q26 by (simp add: pow2_nat)
  also have "\<dots> \<le> pow2 1024" by simp
  finally have fin: "\<not> pow2 1024 \<le> y" by simp
  have "fl q = Fin y"
    using q0 fin by (simp add: fl_def flpos_def Let_def y_def r_def p_def)
  then show ?thesis
    using fk y0 by (simp add: q_def k_def)
qed



lemma flpos_eval:
  assumes "pow2 e \<le> x" "x < pow2 (e + 1)" "- 1022 \<le> e" "e \<le> 1022"
  shows "flpos x = Fin (of_int (rhe (x / pow2 (e - 52))) * pow2 (e - 52))"
proof -
  have e: "ilog2 x = e"
    using assms(1,2) by (rule ilog2_eqI)
  have x: "0 \<le> x"
    using assms(1) pow2_pos [of e] by linarith
  have "pow2 (e + 1) \<le> pow2 1023"
    using assms(4) by simp
  then have "x < pow2 1023"
    using assms(2) by linarith
  then obtain y where "flpos x = Fin y"
    using flpos_finite [OF x] by blast
  then show ?thesis
    using assms(3) by (simp add: flpos_def Let_def e split: if_splits)
qed

lemma rhe_half:
  "rhe (of_int f + 1 / 2) = (if even f then f else f + 1)"
proof -
  have "\<lfloor>(of_int f :: rat) + 1 / 2\<rfloor> = f"
    by (rule floor_unique) simp_all
  then show ?thesis
    by (simp add: rhe_def Let_def)
qed

lemma fl_2_53_plus_1: "fl 9007199254740993 = Fin 9007199254740992"
proof -
  have "flpos 9007199254740993 =
          Fin (of_int (rhe (9007199254740993 / pow2 (53 - 52))) * pow2 (53 - 52))"
    by (rule flpos_eval) (simp_all add: pow2_nat)
  moreover have "pow2 (53 - 52) = 2"
    by (simp add: pow2_nat)
  moreover have "(9007199254740993 / 2 :: rat) = of_int 4503599627370496 + 1 / 2"
    by simp
  ultimately have "flpos 9007199254740993 = Fin (of_int 4503599627370496 * 2)"
    by (simp only: rhe_half) simp
  then show ?thesis
    by (simp add: fl_def)
qed

lemma fl_example_difference: "fl 9504000043199999 = Fin 9504000043200000"
proof -
  have "flpos 9504000043199999 =
          Fin (of_int (rhe (9504000043199999 / pow2 (53 - 52))) * pow2 (53 - 52))"
    by (rule flpos_eval) (simp_all add: pow2_nat)
  moreover have "pow2 (53 - 52) = 2"
    by (simp add: pow2_nat)
  moreover have "(9504000043199999 / 2 :: rat) = of_int 4752000021599999 + 1 / 2"
    by simp
  ultimately have "flpos 9504000043199999 = Fin (of_int (4752000021599999 + 1) * 2)"
    by (simp only: rhe_half) simp
  then show ?thesis
    by (simp add: fl_def)
qed

lemma fl_example_quotient: "fl (220000001 / 2) = Fin (220000001 / 2)"
proof -
  have "flpos (220000001 / 2) =
          Fin (of_int (rhe (220000001 / 2 / pow2 (26 - 52))) * pow2 (26 - 52))"
    by (rule flpos_eval) (simp_all add: pow2_nat)
  moreover have "pow2 (26 - 52) = 1 / 67108864"
    using pow2_neg [of 26] by simp
  moreover have "(220000001 / 2 / (1 / 67108864) :: rat) = of_int 7381975073554432"
    by simp
  ultimately have "flpos (220000001 / 2) = Fin (of_int 7381975073554432 * (1 / 67108864))"
    by (simp only: rhe_of_int)
  then show ?thesis
    by (simp add: fl_def)
qed

lemma fadd_commute: "fadd x y = fadd y x"
  by (cases x; cases y) (simp_all add: add.commute)

lemma fneg_fadd: "fneg (fadd x y) = fadd (fneg x) (fneg y)"
proof (cases x; cases y)
  fix a b
  assume "x = Fin a" "y = Fin b"
  then show ?thesis
    using fl_minus [of "a + b"] by simp
qed simp_all

lemma fsub_swap: "fsub y x = fneg (fsub x y)"
  unfolding fsub_def fneg_fadd fneg_fneg by (rule fadd_commute)

lemma fdiv_fneg_oneDay: "fdiv (fneg x) oneDay = fneg (fdiv x oneDay)"
  by (cases x) (simp_all add: oneDay_def fl_minus [symmetric])

lemma fabs_fneg [simp]: "fabs (fneg x) = fabs x"
  by (cases x) simp_all

lemma findDiffInDays_sym: "findDiffInDays x y = findDiffInDays y x"
  unfolding findDiffInDays_def fsub_swap [of x y] fdiv_fneg_oneDay by simp

lemma findDiffInDays_same: "findDiffInDays (Fin t) (Fin t) = Fin 1"
  by (simp add: findDiffInDays_def fsub_def oneDay_def)

lemma jsRound_fabs_cases:
  "jsRound (fabs z) = NaN \<or> jsRound (fabs z) = PInf
   \<or> (\<exists>k. 0 \<le> k \<and> jsRound (fabs z) = Fin (of_int k))"
proof (cases z)
  case (Fin x)
  have "0 \<le> \<lfloor>\<bar>x\<bar> + 1 / 2\<rfloor>" by simp
  then show ?thesis using Fin by auto
qed simp_all

lemma jsMax_1_int: "jsMax (Fin 1) (Fin (of_int k)) = Fin (of_int (max 1 k))"
  by (simp add: max_def)

lemma findDiffInDays_cases:
  "findDiffInDays s e = NaN \<or> findDiffInDays s e = PInf
   \<or> (\<exists>d. 1 \<le> d \<and> findDiffInDays s e = Fin (of_int d))"
proof -
  let ?z = "fdiv (fsub e s) oneDay"
  from jsRound_fabs_cases [of ?z] show ?thesis
  proof (elim disjE exE conjE)
    fix k :: int
    assume "jsRound (fabs ?z) = Fin (of_int k)"
    then have "findDiffInDays s e = Fin (of_int (max 1 k))"
      by (simp add: findDiffInDays_def jsMax_1_int)
    then show ?thesis by auto
  qed (simp_all add: findDiffInDays_def)
qed

lemma findDiffInDays_not_lt_1: "\<not> js_lt (findDiffInDays s e) (Fin 1)"
  using findDiffInDays_cases [of s e] by auto

lemma findDiffInDays_int:
  fixes s e :: int
  assumes "\<bar>s\<bar> \<le> 9007199254740992" "\<bar>e\<bar> \<le> 9007199254740992"
    and "\<bar>e - s\<bar> < 5798205849600000"
  shows "findDiffInDays (Fin (of_int s)) (Fin (of_int e))
         = Fin (of_int (max 1 (round (of_int \<bar>e - s\<bar> / 86400000 :: rat))))"
proof -
  define n where "n = e - s"
  have n: "\<bar>n\<bar> < 5798205849600000"
    using assms(3) by (simp add: n_def)
  have "fl (of_int n) = Fin (of_int n)"
    using n by (intro fl_int) simp
  then have sub: "fsub (Fin (of_int e)) (Fin (of_int s)) = Fin (of_int n)"
    by (simp add: fsub_def n_def)
  obtain y where y: "fl (of_int \<bar>n\<bar> / 86400000) = Fin y" "0 \<le> y"
    "\<lfloor>y + 1 / 2\<rfloor> = \<lfloor>(of_int \<bar>n\<bar> / 86400000 :: rat) + 1 / 2\<rfloor>"
    using fl_quotient_round [of "\<bar>n\<bar>"] n by auto
  have "fabs (fdiv (Fin (of_int n)) oneDay) = Fin y"
  proof (cases "0 \<le> n")
    case True
    then show ?thesis using y by (simp add: oneDay_def)
  next
    case False
    then have "\<bar>n\<bar> = - n" by simp
    then have "(of_int n :: rat) / 86400000 = - (of_int \<bar>n\<bar> / 86400000)"
      by simp
    then have "fl (of_int n / 86400000) = fneg (Fin y)"
      using y(1) fl_minus [of "of_int \<bar>n\<bar> / 86400000"] by simp
    then show ?thesis using y(2) by (simp add: oneDay_def)
  qed
  then have "findDiffInDays (Fin (of_int s)) (Fin (of_int e))
               = Fin (of_int (max 1 (round (of_int \<bar>n\<bar> / 86400000 :: rat))))"
    using y(3) by (simp add: findDiffInDays_def sub round_def jsMax_1_int)
  then show ?thesis
    by (simp only: n_def)
qed

lemma findDiffInDays_valid:
  assumes "validTime s" "validTime e"
  shows "\<exists>d. 1 \<le> d \<and> findDiffInDays s e = Fin (of_int d)"
proof -
  obtain a b where ab: "s = Fin a" "e = Fin b" "\<bar>a\<bar> \<le> 8640000000000000" "\<bar>b\<bar> \<le> 8640000000000000"
    using assms by (auto simp: validTime_def split: number.splits)
  have big: "(2::rat) ^ 60 \<le> pow2 1023"
  proof -
    have "pow2 60 \<le> pow2 1023" by simp
    then show ?thesis by (simp add: pow2_nat)
  qed
  have "\<bar>b - a\<bar> < pow2 1023"
    using ab(3,4) big by simp
  then obtain y where y: "fl (b - a) = Fin y" "\<bar>y\<bar> < pow2 1024"
    using fl_finite by blast
  have "pow2 1024 = 2 * pow2 1023"
    using pow2_add [of 1023 1] by (simp add: pow2_def)
  then have "\<bar>y / 86400000\<bar> < pow2 1023"
    using y(2) by simp
  then obtain z where z: "fl (y / 86400000) = Fin z"
    using fl_finite by blast
  have "findDiffInDays s e = jsMax (Fin 1) (Fin (of_int \<lfloor>\<bar>z\<bar> + 1 / 2\<rfloor>))"
    by (simp add: findDiffInDays_def ab(1,2) fsub_def y(1) oneDay_def z)
  then have "findDiffInDays s e = Fin (of_int (max 1 \<lfloor>\<bar>z\<bar> + 1 / 2\<rfloor>))"
    by (simp only: jsMax_1_int)
  then show ?thesis by auto
qed

section \<open>Comparisons\<close>

lemma js_lt_not_ge: "js_lt a b \<Longrightarrow> \<not> js_ge a b"
  by (cases a; cases b) (auto simp: js_ge_def js_le_def js_eq_def)

lemma js_le_not_lt: "js_le a b \<Longrightarrow> \<not> js_lt b a"
  by (cases a; cases b) (auto simp: js_le_def js_eq_def)

lemma js_ge_0_iff: "js_ge x (Fin 0) \<longleftrightarrow> x = PInf \<or> (\<exists>y. 0 \<le> y \<and> x = Fin y)"
  by (cases x) (auto simp: js_ge_def js_le_def js_eq_def)

lemma js_le_1_not_falsy: "js_le (Fin 1) d \<Longrightarrow> js_le d b \<Longrightarrow> \<not> falsy b"
  by (cases d; cases b) (auto simp: js_le_def js_eq_def falsy_def)

lemma not_js_lt_Fin:
  "\<not> js_lt b (Fin d) \<Longrightarrow> js_ge b (Fin 0) \<Longrightarrow> b = PInf \<or> (\<exists>y. d \<le> y \<and> b = Fin y)"
  by (cases b) (auto simp: js_ge_def js_le_def js_eq_def)

lemma js_le_Fin:
  "js_le (Fin d) b \<Longrightarrow> b = PInf \<or> (\<exists>y. d \<le> y \<and> b = Fin y)"
  by (cases b) (auto simp: js_le_def js_eq_def)

section \<open>Stores as association lists\<close>

lemma set_update_subset: "set (AList.update k v al) \<subseteq> insert (k, v) (set al)"
  by (induction al) auto

lemma set_delete_subset: "set (AList.delete k al) \<subseteq> set al"
  by (auto simp: AList.delete_eq)

lemma values_update_subset:
  "set (values_of (AList.update k v al)) \<subseteq> insert v (set (values_of al))"
  using set_update_subset [of k v al] by (fastforce simp: values_of_def)

lemma values_delete_subset:
  "set (values_of (AList.delete k al)) \<subseteq> set (values_of al)"
  using set_delete_subset [of k al] by (fastforce simp: values_of_def)

lemma map_of_values: "map_of al k = Some v \<Longrightarrow> v \<in> set (values_of al)"
  by (auto simp: values_of_def dest: map_of_SomeD intro: rev_image_eqI)

lemma map_of_update: "map_of (AList.update k v al) = (map_of al)(k \<mapsto> v)"
  by (rule AList.update_conv')

lemma values_of_simps:
  "values_of [] = []" "values_of ((k, v) # al) = v # values_of al"
  by (simp_all add: values_of_def)

lemma list_all_update:
  "list_all P al \<Longrightarrow> P (k, v) \<Longrightarrow> list_all P (AList.update k v al)"
  using set_update_subset [of k v al] by (auto simp: list_all_iff)

lemma list_all_delete: "list_all P al \<Longrightarrow> list_all P (AList.delete k al)"
  using set_delete_subset [of k al] by (auto simp: list_all_iff)

lemma list_all_values_update:
  "list_all P (values_of al) \<Longrightarrow> P v \<Longrightarrow> list_all P (values_of (AList.update k v al))"
  using values_update_subset [of k v al] by (auto simp: list_all_iff)

lemma list_all_values_delete:
  "list_all P (values_of al) \<Longrightarrow> list_all P (values_of (AList.delete k al))"
  using values_delete_subset [of k al] by (auto simp: list_all_iff)

section \<open>Every reachable store is well formed\<close>

lemma wf_userD:
  "wf_store L st \<Longrightarrow> map_of (userStorage st) k = Some u
   \<Longrightarrow> u_id u = k \<and> u_name u \<noteq> [] \<and> u_email u \<noteq> []"
  by (auto simp: wf_store_def list_all_iff dest!: map_of_SomeD)

lemma wf_leaveD:
  "wf_store L st \<Longrightarrow> map_of (leaveStorage st) k = Some l
   \<Longrightarrow> l_id l = k \<and> isValidUUID L (l_userId l)"
  by (auto simp: wf_store_def list_all_iff dest!: map_of_SomeD)

lemma wf_emptyStore: "wf_store L emptyStore"
  by (simp add: wf_store_def emptyStore_def)

lemma wf_insert_leave:
  "wf_store L st \<Longrightarrow> l_id l = k \<Longrightarrow> isValidUUID L (l_userId l)
   \<Longrightarrow> wf_store L (st\<lparr>leaveStorage := AList.update k l (leaveStorage st)\<rparr>)"
  by (auto simp: wf_store_def intro!: list_all_update)

lemma wf_addUser: "wf_store L st \<Longrightarrow> wf_store L (snd (addUser E p st))"
  by (auto simp: addUser_def wf_store_def Let_def intro!: list_all_update split: option.splits)

lemma wf_updateUser: "wf_store L st \<Longrightarrow> wf_store L (snd (updateUser L E i p st))"
  by (auto simp: updateUser_def Let_def split: option.splits dest: wf_userD)
     (auto simp: wf_store_def intro!: list_all_update)

lemma wf_deleteUser: "wf_store L st \<Longrightarrow> wf_store L (snd (deleteUser L i st))"
  by (auto simp: deleteUser_def wf_store_def intro!: list_all_delete split: option.splits)

lemma wf_adjust:
  "wf_store L st \<Longrightarrow> wf_store L (snd (updateUsersAvailableDays L E u d opn st))"
  by (auto simp: updateUsersAvailableDays_def Let_def wf_updateUser split: sum.splits)

lemma wf_requestLeave: "wf_store L st \<Longrightarrow> wf_store L (snd (requestLeave L E u p st))"
proof -
  assume wf: "wf_store L st"
  have "wf_store L (st\<lparr>leaveStorage := AList.update (uuidv4 E) l (leaveStorage st)\<rparr>)"
    if "l_id l = uuidv4 E" "isValidUUID L (l_userId l)" for l
    using wf that by (intro wf_insert_leave)
  then show ?thesis
    using wf by (auto simp: requestLeave_def Let_def wf_adjust split: sum.splits)
qed

lemma wf_updateLeave: "wf_store L st \<Longrightarrow> wf_store L (snd (updateLeave L E i p st))"
proof -
  assume wf: "wf_store L st"
  have "wf_store L (st\<lparr>leaveStorage := AList.update (l_id l)
          (l\<lparr>l_startDate := a, l_endDate := b, l_days := d, l_updatedAt := t\<rparr>)
          (leaveStorage st)\<rparr>)"
    if "map_of (leaveStorage st) i = Some l" for l a b d t
    using wf wf_leaveD [OF wf that] by (intro wf_insert_leave) simp_all
  then show ?thesis
    using wf by (auto simp: updateLeave_def Let_def split: option.splits)
qed

lemma wf_deleteLeave: "wf_store L st \<Longrightarrow> wf_store L (snd (deleteLeave L i st))"
  by (auto simp: deleteLeave_def wf_store_def intro!: list_all_delete split: option.splits)

lemma wf_updateLeaveStatus:
  "wf_store L st \<Longrightarrow> wf_store L (snd (updateLeaveStatus L E i s st))"
proof -
  assume wf: "wf_store L st"
  have "wf_store L (st\<lparr>leaveStorage := AList.update (l_id l)
          (l\<lparr>l_status := s, l_updatedAt := t\<rparr>) (leaveStorage st)\<rparr>)"
    if "map_of (leaveStorage st) i = Some l" for l t
    using wf wf_leaveD [OF wf that] by (intro wf_insert_leave) simp_all
  then show ?thesis
    using wf by (auto simp: updateLeaveStatus_def Let_def wf_adjust split: option.splits)
qed

lemma wf_exec: "wf_store L st \<Longrightarrow> wf_store L (exec L E c st)"
  by (cases c)
     (simp_all add: wf_addUser wf_updateUser wf_deleteUser wf_requestLeave wf_updateLeave
        wf_deleteLeave wf_updateLeaveStatus)

lemma wf_run: "wf_store L st \<Longrightarrow> wf_store L (run L cs st)"
  by (induction cs arbitrary: st) (auto simp: wf_exec)

lemma wf_reachable: "wf_store L (run L cs emptyStore)"
  by (rule wf_run [OF wf_emptyStore])

section \<open>What a successful call writes\<close>

lemma adjust_ok:
  assumes "wf_store L st" "isValidUUID L uid" "map_of (userStorage st) uid = Some u"
    and "\<not> falsy (u_availableDays u)"
  shows "updateUsersAvailableDays L E uid d opn st =
           (Inr (u\<lparr>u_availableDays := (case opn of ADD \<Rightarrow> fadd (u_availableDays u) d
                                                 | SUBTRACT \<Rightarrow> fsub (u_availableDays u) d),
                    u_updatedAt := Some (ic_time E)\<rparr>),
            st\<lparr>userStorage :=
                 AList.update uid
                   (u\<lparr>u_availableDays := (case opn of ADD \<Rightarrow> fadd (u_availableDays u) d
                                                     | SUBTRACT \<Rightarrow> fsub (u_availableDays u) d),
                      u_updatedAt := Some (ic_time E)\<rparr>) (userStorage st)\<rparr>)"
  using assms wf_userD [OF assms(1,3)]
  by (simp add: updateUsersAvailableDays_def getUser_def updateUser_def Let_def)

lemma requestLeave_ok:
  assumes wf: "wf_store L st"
    and valid: "isValidUUID L userId"
    and user: "map_of (userStorage st) userId = Some user"
    and order: "js_lt (lp_startDate p) (lp_endDate p)"
    and ys: "js_eq (getFullYear L (lp_startDate p)) (getFullYear L (dateNow E))"
    and ye: "js_eq (getFullYear L (lp_endDate p)) (getFullYear L (dateNow E))"
    and D: "findDiffInDays (lp_startDate p) (lp_endDate p) = D"
    and bal: "\<not> js_lt (u_availableDays user) D"
    and nz: "\<not> falsy (u_availableDays user)"
    and free: "\<not> isOverlapping (lp_startDate p) (lp_endDate p)
                 (filter (\<lambda>leave. l_userId leave = userId) (values_of (leaveStorage st)))"
  shows "requestLeave L E userId p st =
           (Inr \<lparr>l_id = uuidv4 E, l_userId = userId, l_startDate = lp_startDate p,
                  l_endDate = lp_endDate p, l_days = D, l_status = PENDING,
                  l_createdAt = ic_time E, l_updatedAt = None\<rparr>,
            \<lparr>leaveStorage = AList.update (uuidv4 E)
                \<lparr>l_id = uuidv4 E, l_userId = userId, l_startDate = lp_startDate p,
                   l_endDate = lp_endDate p, l_days = D, l_status = PENDING,
                   l_createdAt = ic_time E, l_updatedAt = None\<rparr> (leaveStorage st),
             userStorage = AList.update userId
                (user\<lparr>u_availableDays := fsub (u_availableDays user) D,
                        u_updatedAt := Some (ic_time E)\<rparr>) (userStorage st)\<rparr>)"
proof -
  let ?leave = "\<lparr>l_id = uuidv4 E, l_userId = userId, l_startDate = lp_startDate p,
                   l_endDate = lp_endDate p, l_days = D, l_status = PENDING,
                   l_createdAt = ic_time E, l_updatedAt = None\<rparr>"
  let ?st1 = "st\<lparr>leaveStorage := AList.update (uuidv4 E) ?leave (leaveStorage st)\<rparr>"
  have D1: "\<not> js_lt D (Fin 1)"
    using findDiffInDays_not_lt_1 [of "lp_startDate p" "lp_endDate p"] D by simp
  have wf1: "wf_store L ?st1"
    using wf valid by (intro wf_insert_leave) simp_all
  have u1: "map_of (userStorage ?st1) userId = Some user"
    using user by simp
  have adj: "snd (updateUsersAvailableDays L E userId D SUBTRACT ?st1) =
               ?st1\<lparr>userStorage := AList.update userId
                  (user\<lparr>u_availableDays := fsub (u_availableDays user) D,
                          u_updatedAt := Some (ic_time E)\<rparr>) (userStorage ?st1)\<rparr>"
    using adjust_ok [OF wf1 valid u1 nz, of E D SUBTRACT] by simp
  have get: "getUser L userId st = Inr user"
    using valid user by (simp add: getUser_def)
  have "requestLeave L E userId p st =
          (Inr ?leave, snd (updateUsersAvailableDays L E userId D SUBTRACT ?st1))"
    using valid get js_lt_not_ge [OF order] ys ye D D1 bal free
    by (simp add: requestLeave_def Let_def)
  then show ?thesis
    unfolding adj by simp
qed

text \<open>
  Where the owner is stored with a balance that is neither 0 nor NaN, a status update
  writes the new balance, and a rejection credits the days of the request.
\<close>

lemma updateLeaveStatus_ok:
  assumes wf: "wf_store L st"
    and valid: "isValidUUID L idv"
    and leave: "map_of (leaveStorage st) idv = Some leave"
    and owner: "map_of (userStorage st) (l_userId leave) = Some owner"
    and nz: "\<not> falsy (u_availableDays owner)"
  shows "updateLeaveStatus L E idv s st =
           (Inr (leave\<lparr>l_status := s, l_updatedAt := Some (ic_time E)\<rparr>),
            \<lparr>leaveStorage = AList.update idv
                (leave\<lparr>l_status := s, l_updatedAt := Some (ic_time E)\<rparr>) (leaveStorage st),
             userStorage = AList.update (l_userId leave)
                (owner\<lparr>u_availableDays :=
                          (if s = REJECTED then fadd (u_availableDays owner) (l_days leave)
                           else fsub (u_availableDays owner) (l_days leave)),
                        u_updatedAt := Some (ic_time E)\<rparr>) (userStorage st)\<rparr>)"
proof -
  let ?up = "leave\<lparr>l_status := s, l_updatedAt := Some (ic_time E)\<rparr>"
  let ?st1 = "st\<lparr>leaveStorage := AList.update idv ?up (leaveStorage st)\<rparr>"
  have l: "l_id leave = idv" "isValidUUID L (l_userId leave)"
    using wf_leaveD [OF wf leave] by simp_all
  have wf1: "wf_store L ?st1"
    using wf l by (intro wf_insert_leave) simp_all
  have o1: "map_of (userStorage ?st1) (l_userId leave) = Some owner"
    using owner by simp
  have adj: "snd (updateUsersAvailableDays L E (l_userId leave) (l_days leave) opn ?st1) =
               ?st1\<lparr>userStorage := AList.update (l_userId leave)
                  (owner\<lparr>u_availableDays :=
                            (case opn of ADD \<Rightarrow> fadd (u_availableDays owner) (l_days leave)
                                       | SUBTRACT \<Rightarrow> fsub (u_availableDays owner) (l_days leave)),
                          u_updatedAt := Some (ic_time E)\<rparr>) (userStorage ?st1)\<rparr>" for opn
    unfolding adjust_ok [OF wf1 l(2) o1 nz] by simp
  show ?thesis
    using valid leave adj [of ADD] adj [of SUBTRACT]
    by (auto simp: updateLeaveStatus_def Let_def l(1))
qed

lemma reject_credits:
  assumes "wf_store L st" "isValidUUID L idv" "map_of (leaveStorage st) idv = Some leave"
    and "map_of (userStorage st) (l_userId leave) = Some owner"
    and "\<not> falsy (u_availableDays owner)"
  shows "map_option u_availableDays
           (map_of (userStorage (snd (updateLeaveStatus L E idv REJECTED st))) (l_userId leave))
         = Some (fadd (u_availableDays owner) (l_days leave))"
  unfolding updateLeaveStatus_ok [OF assms] by (simp add: map_of_update)

section \<open>The example runs\<close>

lemma exLib_simps [simp]:
  "isValidUUID exLib idA" "isValidUUID exLib idB" "isValidUUID exLib idL"
  "idA \<noteq> idB" "idA \<noteq> idL" "idB \<noteq> idL" "idB \<noteq> idA" "idL \<noteq> idA" "idL \<noteq> idB"
  by (simp_all add: exLib_def uuidShape_def idA_def idB_def idL_def)

lemma fsub_Fin_int:
  "\<bar>a - b\<bar> \<le> 9007199254740992 \<Longrightarrow> fsub (Fin (of_int a)) (Fin (of_int b)) = Fin (of_int (a - b))"
  using fl_int [of "a - b"] by (simp add: fsub_def)

lemma fadd_Fin_int:
  "\<bar>a + b\<bar> \<le> 9007199254740992 \<Longrightarrow> fadd (Fin (of_int a)) (Fin (of_int b)) = Fin (of_int (a + b))"
  using fl_int [of "a + b"] by simp

lemma findDiffInDays_jan2026:
  assumes "1 \<le> x" "x < y" "y \<le> 31"
  shows "findDiffInDays (jan2026 x) (jan2026 y) = Fin (of_int (y - x))"
proof -
  define s where "s = 1767225600000 + (x - 1) * 86400000"
  define e where "e = 1767225600000 + (y - 1) * 86400000"
  have d: "\<bar>e - s\<bar> = (y - x) * 86400000"
    using assms by (simp add: s_def e_def algebra_simps)
  have "(of_int \<bar>e - s\<bar> / 86400000 :: rat) = of_int (y - x)"
    unfolding d by simp
  then have r: "round (of_int \<bar>e - s\<bar> / 86400000 :: rat) = y - x"
    by (simp only: round_of_int)
  have "findDiffInDays (Fin (of_int s)) (Fin (of_int e))
          = Fin (of_int (max 1 (round (of_int \<bar>e - s\<bar> / 86400000 :: rat))))"
    using assms d by (intro findDiffInDays_int) (simp_all add: s_def e_def)
  then have "findDiffInDays (Fin (of_int s)) (Fin (of_int e)) = Fin (of_int (y - x))"
    unfolding r using assms by (simp add: max_def)
  then show ?thesis
    by (simp only: jan2026_def s_def e_def)
qed

lemma year_jan2026 [simp]:
  "getFullYear exLib (jan2026 5) = Fin 2026" "getFullYear exLib (jan2026 10) = Fin 2026"
  "getFullYear exLib (jan2026 11) = Fin 2026" "getFullYear exLib (jan2026 15) = Fin 2026"
  "getFullYear exLib (jan2026 20) = Fin 2026"
  by (simp_all add: exLib_def utcFullYear_def yearFromTime_def dayFromYear_def jan2026_def
        Let_def)

lemma jan2026_compare [simp]:
  "js_lt (jan2026 x) (jan2026 y) \<longleftrightarrow> x < y"
  "js_gt (jan2026 x) (jan2026 y) \<longleftrightarrow> y < x"
  "js_ge (jan2026 x) (jan2026 y) \<longleftrightarrow> y \<le> x"
  by (auto simp: jan2026_def js_gt_def js_ge_def js_le_def js_eq_def)

lemma leaveA_simps [simp]:
  "l_id (leaveA x y) = idL" "l_userId (leaveA x y) = idA"
  "l_days (leaveA x y) = Fin (of_int (y - x))"
  "l_startDate (leaveA x y) = jan2026 x" "l_endDate (leaveA x y) = jan2026 y"
  by (simp_all add: leaveA_def)

lemma run_addAnn:
  "run exLib [(exEnv idA, AddUser (annPayload (Some b)))] emptyStore = stAnn b"
  by (simp add: addUser_def annPayload_def emptyStore_def values_of_def exEnv_def stAnn_def
        userA_def Let_def)

lemma requestLeave_stAnn:
  assumes "y = 11 \<or> y = 15" "\<not> js_lt b (Fin (of_int (y - 10)))" "\<not> falsy b"
  shows "requestLeave exLib (exEnv idL) idA (period 10 y) (stAnn b)
           = (Inr (leaveA 10 y), stAnnLeave (fsub b (Fin (of_int (y - 10)))) 10 y)"
proof -
  have d: "findDiffInDays (jan2026 10) (jan2026 y) = Fin (of_int (y - 10))"
    using assms(1) by (intro findDiffInDays_jan2026) auto
  have yr: "getFullYear exLib (jan2026 y) = Fin 2026"
    using assms(1) by auto
  have lt: "\<not> js_lt (Fin (of_int (y - 10))) (Fin 1)"
    using assms(1) by auto
  show ?thesis
    using assms(2,3) lt
    by (simp add: requestLeave_def getUser_def stAnn_def period_def d yr js_eq_def
          isOverlapping_def values_of_def Let_def updateUsersAvailableDays_def updateUser_def
          userA_def leaveA_def stAnnLeave_def stAnnWith_def exEnv_def)
qed

lemma run_addAnn_request:
  assumes "y = 11 \<or> y = 15" "\<not> js_lt b (Fin (of_int (y - 10)))" "\<not> falsy b"
  shows "run exLib [(exEnv idA, AddUser (annPayload (Some b))),
                    (exEnv idL, RequestLeave idA (period 10 y))] emptyStore
           = stAnnLeave (fsub b (Fin (of_int (y - 10)))) 10 y"
  using run_addAnn [of b] requestLeave_stAnn [OF assms] by simp

lemma run_addAnn_request_int:
  assumes "5 \<le> b" "b \<le> 9007199254740992"
  shows "run exLib [(exEnv idA, AddUser (annPayload (Some (Fin (of_int b))))),
                    (exEnv idL, RequestLeave idA (period 10 15))] emptyStore
           = stAnnLeave (Fin (of_int (b - 5))) 10 15"
proof -
  have "fsub (Fin (of_int b)) (Fin (of_int (15 - 10))) = Fin (of_int (b - 5))"
    using assms fsub_Fin_int [of b 5] by simp
  then show ?thesis
    using run_addAnn_request [of 15 "Fin (of_int b)"] assms by (simp add: falsy_def)
qed

lemma updateLeaveStatus_stAnnWith:
  "l_id l = idL \<Longrightarrow> l_userId l = idA \<Longrightarrow>
   snd (updateLeaveStatus exLib (exEnv i) idL s (stAnnWith b l)) =
     stAnnWith (if falsy b then b
                else if s = REJECTED then fadd b (l_days l) else fsub b (l_days l))
       (l\<lparr>l_status := s, l_updatedAt := Some 0\<rparr>)"
  by (simp add: updateLeaveStatus_def updateUsersAvailableDays_def getUser_def updateUser_def
        stAnnWith_def userA_def exEnv_def Let_def)

lemma updateLeave_stAnnWith:
  "l_id l = idL \<Longrightarrow>
   snd (updateLeave exLib (exEnv i) idL p (stAnnWith b l)) =
     stAnnWith b (l\<lparr>l_startDate := lp_startDate p, l_endDate := lp_endDate p,
                    l_days := findDiffInDays (lp_startDate p) (lp_endDate p),
                    l_updatedAt := Some 0\<rparr>)"
  using findDiffInDays_not_lt_1 [of "lp_startDate p" "lp_endDate p"]
  by (simp add: updateLeave_def stAnnWith_def exEnv_def Let_def)

lemma balances_stAnnWith:
  "map u_availableDays (values_of (userStorage (stAnnWith b l))) = [b]"
  by (simp add: stAnnWith_def values_of_def userA_def)

section \<open>Balances that stay non-negative\<close>

lemma fadd_nonneg:
  assumes "js_ge b (Fin 0)" "1 \<le> d"
  shows "js_ge (fadd b (Fin d)) (Fin 0)"
proof -
  from assms(1) consider "b = PInf" | y where "0 \<le> y" "b = Fin y"
    by (auto simp: js_ge_0_iff)
  then show ?thesis
  proof cases
    case 1
    then show ?thesis by (simp add: js_ge_0_iff)
  next
    case 2
    then show ?thesis
      using fl_nonneg [of "y + d"] assms(2) by (simp add: js_ge_0_iff)
  qed
qed

lemma fsub_nonneg:
  assumes "js_ge b (Fin 0)" "\<not> js_lt b (Fin d)"
  shows "js_ge (fsub b (Fin d)) (Fin 0)"
proof -
  from not_js_lt_Fin [OF assms(2,1)] consider "b = PInf" | y where "d \<le> y" "b = Fin y"
    by auto
  then show ?thesis
  proof cases
    case 1
    then show ?thesis by (simp add: js_ge_0_iff fsub_def)
  next
    case 2
    then show ?thesis
      using fl_nonneg [of "y - d"] by (simp add: js_ge_0_iff fsub_def)
  qed
qed

lemma nonneg_userD:
  "nonneg_balances st \<Longrightarrow> map_of (userStorage st) k = Some u \<Longrightarrow> js_ge (u_availableDays u) (Fin 0)"
  by (auto simp: nonneg_balances_def list_all_iff dest: map_of_values)

lemma whole_leaveD:
  "whole_days st \<Longrightarrow> map_of (leaveStorage st) k = Some l \<Longrightarrow> \<exists>d. 1 \<le> d \<and> l_days l = Fin d"
proof -
  assume "whole_days st" "map_of (leaveStorage st) k = Some l"
  then have "case l_days l of Fin d \<Rightarrow> 1 \<le> d | _ \<Rightarrow> False"
    by (auto simp: whole_days_def list_all_iff dest!: map_of_values)
  then show ?thesis
    by (cases "l_days l") simp_all
qed

lemma nonneg_insert:
  "nonneg_balances st \<Longrightarrow> js_ge (u_availableDays u) (Fin 0)
   \<Longrightarrow> nonneg_balances (st\<lparr>userStorage := AList.update k u (userStorage st)\<rparr>)"
  by (simp add: nonneg_balances_def list_all_values_update)

lemma whole_insert:
  "whole_days st \<Longrightarrow> l_days l = Fin d \<Longrightarrow> 1 \<le> d
   \<Longrightarrow> whole_days (st\<lparr>leaveStorage := AList.update k l (leaveStorage st)\<rparr>)"
  by (simp add: whole_days_def list_all_values_update)

lemma nonneg_addUser:
  "nonneg_balances st \<Longrightarrow> safe_call st (AddUser p) \<Longrightarrow> nonneg_balances (snd (addUser E p st))"
  by (auto simp: addUser_def Let_def DEFAULT_AVAILABLE_DAYS_def js_ge_0_iff intro!: nonneg_insert
        split: option.splits)

lemma nonneg_updateUser:
  "nonneg_balances st \<Longrightarrow> (case up_availableDays p of Some d \<Rightarrow> js_ge d (Fin 0) | None \<Rightarrow> True)
   \<Longrightarrow> nonneg_balances (snd (updateUser L E i p st))"
  by (auto simp: updateUser_def Let_def intro!: nonneg_insert dest: nonneg_userD
        split: option.splits)

lemma nonneg_updateUser_safe:
  "nonneg_balances st \<Longrightarrow> safe_call st (UpdateUser i p)
   \<Longrightarrow> nonneg_balances (snd (updateUser L E i p st))"
  by (simp add: nonneg_updateUser)

lemma nonneg_deleteUser: "nonneg_balances st \<Longrightarrow> nonneg_balances (snd (deleteUser L i st))"
  by (auto simp: deleteUser_def nonneg_balances_def list_all_values_delete split: option.splits)

lemma nonneg_adjust:
  assumes "nonneg_balances st"
    and "\<And>u. map_of (userStorage st) uid = Some u \<Longrightarrow>
           js_ge (case opn of ADD \<Rightarrow> fadd (u_availableDays u) d
                            | SUBTRACT \<Rightarrow> fsub (u_availableDays u) d) (Fin 0)"
  shows "nonneg_balances (snd (updateUsersAvailableDays L E uid d opn st))"
  using assms
  by (auto simp: updateUsersAvailableDays_def getUser_def Let_def intro!: nonneg_updateUser
        split: sum.splits option.splits if_splits)

lemma adjust_leaveStorage:
  "leaveStorage (snd (updateUsersAvailableDays L E uid d opn st)) = leaveStorage st"
  by (auto simp: updateUsersAvailableDays_def updateUser_def Let_def
        split: sum.splits option.splits)

lemma whole_adjust:
  "whole_days st \<Longrightarrow> whole_days (snd (updateUsersAvailableDays L E uid d opn st))"
  by (simp add: whole_days_def adjust_leaveStorage)

lemma nonneg_requestLeave:
  assumes nn: "nonneg_balances st" and safe: "safe_call st (RequestLeave u p)"
  shows "nonneg_balances (snd (requestLeave L E u p st))"
proof -
  obtain d where d: "1 \<le> d" "findDiffInDays (lp_startDate p) (lp_endDate p) = Fin (of_int d)"
    using findDiffInDays_valid [of "lp_startDate p" "lp_endDate p"] safe by auto
  have "nonneg_balances (snd (updateUsersAvailableDays L E u (Fin (of_int d)) SUBTRACT
          (st\<lparr>leaveStorage := ls\<rparr>)))"
    if "map_of (userStorage st) u = Some user" "\<not> js_lt (u_availableDays user) (Fin (of_int d))"
    for user ls
  proof (rule nonneg_adjust)
    show "nonneg_balances (st\<lparr>leaveStorage := ls\<rparr>)"
      using nn by (simp add: nonneg_balances_def)
  next
    fix v
    assume "map_of (userStorage (st\<lparr>leaveStorage := ls\<rparr>)) u = Some v"
    then have v: "v = user" using that(1) by simp
    show "js_ge (case SUBTRACT of ADD \<Rightarrow> fadd (u_availableDays v) (Fin (of_int d))
                   | SUBTRACT \<Rightarrow> fsub (u_availableDays v) (Fin (of_int d))) (Fin 0)"
      unfolding v using nonneg_userD [OF nn that(1)] that(2) by (simp add: fsub_nonneg)
  qed
  then show ?thesis
    using nn d(2)
    by (auto simp: requestLeave_def Let_def getUser_def split: sum.splits option.splits if_splits)
qed

lemma whole_requestLeave:
  assumes wd: "whole_days st" and safe: "safe_call st (RequestLeave u p)"
  shows "whole_days (snd (requestLeave L E u p st))"
proof -
  obtain d where d: "1 \<le> d" "findDiffInDays (lp_startDate p) (lp_endDate p) = Fin (of_int d)"
    using findDiffInDays_valid [of "lp_startDate p" "lp_endDate p"] safe by auto
  have "whole_days (st\<lparr>leaveStorage := AList.update k l (leaveStorage st)\<rparr>)"
    if "l_days l = Fin (of_int d)" for k l
    using wd that d(1) by (intro whole_insert [where d = "of_int d"]) simp_all
  then show ?thesis
    using wd d(2)
    by (auto simp: requestLeave_def Let_def whole_days_def adjust_leaveStorage
          split: sum.splits option.splits if_splits)
qed

lemma nonneg_updateLeave: "nonneg_balances st \<Longrightarrow> nonneg_balances (snd (updateLeave L E i p st))"
  by (auto simp: updateLeave_def Let_def nonneg_balances_def split: option.splits)

lemma whole_updateLeave:
  assumes wd: "whole_days st" and safe: "safe_call st (UpdateLeave i p)"
  shows "whole_days (snd (updateLeave L E i p st))"
proof -
  obtain d where d: "1 \<le> d" "findDiffInDays (lp_startDate p) (lp_endDate p) = Fin (of_int d)"
    using findDiffInDays_valid [of "lp_startDate p" "lp_endDate p"] safe by auto
  have "whole_days (st\<lparr>leaveStorage := AList.update k l (leaveStorage st)\<rparr>)"
    if "l_days l = Fin (of_int d)" for k l
    using wd that d(1) by (intro whole_insert [where d = "of_int d"]) simp_all
  then show ?thesis
    using wd d(2) by (auto simp: updateLeave_def Let_def split: option.splits)
qed

lemma nonneg_deleteLeave: "nonneg_balances st \<Longrightarrow> nonneg_balances (snd (deleteLeave L i st))"
  by (auto simp: deleteLeave_def nonneg_balances_def split: option.splits)

lemma whole_deleteLeave: "whole_days st \<Longrightarrow> whole_days (snd (deleteLeave L i st))"
  by (auto simp: deleteLeave_def whole_days_def list_all_values_delete split: option.splits)

lemma whole_updateLeaveStatus:
  assumes wd: "whole_days st"
  shows "whole_days (snd (updateLeaveStatus L E i s st))"
proof -
  have "whole_days (st\<lparr>leaveStorage := AList.update k (l\<lparr>l_status := s, l_updatedAt := t\<rparr>)
                         (leaveStorage st)\<rparr>)"
    if "map_of (leaveStorage st) i = Some l" for k l t
    using wd whole_leaveD [OF wd that] by (auto intro: whole_insert)
  then show ?thesis
    using wd
    by (auto simp: updateLeaveStatus_def Let_def whole_adjust split: option.splits)
qed

lemma nonneg_updateLeaveStatus:
  assumes wd: "whole_days st" and nn: "nonneg_balances st"
    and safe: "safe_call st (UpdateLeaveStatus i s)"
  shows "nonneg_balances (snd (updateLeaveStatus L E i s st))"
proof (cases "isValidUUID L i \<and> map_of (leaveStorage st) i \<noteq> None")
  case False
  then show ?thesis
    using nn by (auto simp: updateLeaveStatus_def)
next
  case True
  then obtain leave where leave: "map_of (leaveStorage st) i = Some leave" and v: "isValidUUID L i"
    by auto
  obtain d where d: "1 \<le> d" "l_days leave = Fin d"
    using whole_leaveD [OF wd leave] by auto
  let ?st1 = "st\<lparr>leaveStorage := AList.update (l_id leave)
                 (leave\<lparr>l_status := s, l_updatedAt := Some (ic_time E)\<rparr>) (leaveStorage st)\<rparr>"
  have nn1: "nonneg_balances ?st1"
    using nn by (simp add: nonneg_balances_def)
  have "nonneg_balances (snd (updateUsersAvailableDays L E (l_userId leave) (l_days leave)
          (if s = REJECTED then ADD else SUBTRACT) ?st1))"
  proof (rule nonneg_adjust [OF nn1])
    fix u
    assume "map_of (userStorage ?st1) (l_userId leave) = Some u"
    then have u: "map_of (userStorage st) (l_userId leave) = Some u" by simp
    have b: "js_ge (u_availableDays u) (Fin 0)"
      by (rule nonneg_userD [OF nn u])
    have "\<not> js_lt (u_availableDays u) (Fin d)" if "s \<noteq> REJECTED"
      using safe that leave u d(2) by (simp add: js_le_not_lt)
    then show "js_ge (case (if s = REJECTED then ADD else SUBTRACT) of
                        ADD \<Rightarrow> fadd (u_availableDays u) (l_days leave)
                      | SUBTRACT \<Rightarrow> fsub (u_availableDays u) (l_days leave)) (Fin 0)"
      using b d by (auto simp: fadd_nonneg fsub_nonneg)
  qed
  then show ?thesis
    using v leave by (auto simp: updateLeaveStatus_def Let_def)
qed

lemma whole_users_only:
  "leaveStorage st' = leaveStorage st \<Longrightarrow> whole_days st' = whole_days st"
  by (simp add: whole_days_def)

lemma whole_exec:
  "whole_days st \<Longrightarrow> safe_call st c \<Longrightarrow> whole_days (exec L E c st)"
proof (cases c)
  case (AddUser p)
  assume "whole_days st"
  then show ?thesis
    using AddUser
    by (auto simp: addUser_def Let_def whole_days_def split: option.splits)
next
  case (UpdateUser i p)
  assume "whole_days st"
  then show ?thesis
    using UpdateUser
    by (auto simp: updateUser_def Let_def whole_days_def split: option.splits)
next
  case (DeleteUser i)
  assume "whole_days st"
  then show ?thesis
    using DeleteUser
    by (auto simp: deleteUser_def whole_days_def split: option.splits)
qed (simp_all add: whole_requestLeave whole_updateLeave whole_deleteLeave whole_updateLeaveStatus
       del: safe_call.simps(5))

lemma nonneg_exec:
  "whole_days st \<Longrightarrow> nonneg_balances st \<Longrightarrow> safe_call st c \<Longrightarrow> nonneg_balances (exec L E c st)"
  by (cases c)
     (simp_all add: nonneg_addUser nonneg_updateUser_safe nonneg_deleteUser nonneg_requestLeave
        nonneg_updateLeave nonneg_deleteLeave nonneg_updateLeaveStatus
        del: safe_call.simps)

lemma nonneg_run:
  "whole_days st \<Longrightarrow> nonneg_balances st \<Longrightarrow> safe_run L cs st \<Longrightarrow> nonneg_balances (run L cs st)"
  by (induction cs arbitrary: st) (auto simp: whole_exec nonneg_exec simp del: safe_call.simps)

lemma safe_run_take: "safe_run L cs st \<Longrightarrow> safe_run L (take n cs) st"
proof (induction cs arbitrary: n st)
  case Nil
  then show ?case by simp
next
  case (Cons a cs)
  then show ?case by (cases n; cases a) auto
qed

section \<open>The claims\<close>

lemma round_abs_div:
  fixes n d :: int
  assumes "0 < d"
  shows "round (\<bar>(of_int n :: rat) / of_int d\<bar>) = (2 * \<bar>n\<bar> + d) div (2 * d)"
proof -
  have "\<bar>(of_int n :: rat) / of_int d\<bar> + 1 / 2 = of_int (2 * \<bar>n\<bar> + d) / of_int (2 * d)"
    using assms by (simp add: field_simps abs_if)
  then have "round (\<bar>(of_int n :: rat) / of_int d\<bar>) = \<lfloor>(of_int (2 * \<bar>n\<bar> + d) :: rat) / of_int (2 * d)\<rfloor>"
    unfolding round_def by simp
  also have "\<dots> = (2 * \<bar>n\<bar> + d) div (2 * d)"
    by (rule floor_divide_of_int_eq)
  finally show ?thesis .
qed




text \<open>
  C2, as stated, fails on the code: the balance is a double and the difference is
  rounded. Ann registers with 9007199254740994 days (\<open>2 ^ 53 + 2\<close>) and requests the 10th
  to the 11th of January, one day, with every check passing; the balance stored
  afterwards is 9007199254740992, not 9007199254740993.
\<close>

theorem C2_inexact_debit_counterexample:
  "requestLeave exLib (exEnv idL) idA (period 10 11)
     (run exLib [(exEnv idA, AddUser (annPayload (Some (Fin 9007199254740994))))] emptyStore)
     = (Inr (leaveA 10 11), stAnnLeave (Fin 9007199254740992) 10 11)
   \<and> findDiffInDays (jan2026 10) (jan2026 11) = Fin 1
   \<and> js_le (Fin 1) (Fin 1) \<and> js_le (Fin 1) (Fin 9007199254740994)
   \<and> l_status (leaveA 10 11) = PENDING \<and> l_days (leaveA 10 11) = Fin 1
   \<and> map u_availableDays (values_of (userStorage (stAnnLeave (Fin 9007199254740992) 10 11)))
       = [Fin 9007199254740992]
   \<and> Fin 9007199254740992 \<noteq> Fin (9007199254740994 - 1)"
proof -
  have st: "run exLib [(exEnv idA, AddUser (annPayload (Some (Fin 9007199254740994))))]
              emptyStore = stAnn (Fin 9007199254740994)"
    by (rule run_addAnn)
  have sub: "fsub (Fin 9007199254740994) (Fin (of_int (11 - 10))) = Fin 9007199254740992"
    using fl_2_53_plus_1 by (simp add: fsub_def)
  have "requestLeave exLib (exEnv idL) idA (period 10 11) (stAnn (Fin 9007199254740994))
          = (Inr (leaveA 10 11), stAnnLeave (Fin 9007199254740992) 10 11)"
    using requestLeave_stAnn [of 11 "Fin 9007199254740994"]
    unfolding sub by (simp add: falsy_def)
  moreover have "findDiffInDays (jan2026 10) (jan2026 11) = Fin 1"
    using findDiffInDays_jan2026 [of 10 11] by simp
  ultimately show ?thesis
    unfolding st stAnnLeave_def balances_stAnnWith
    by (simp add: js_le_def js_eq_def leaveA_def)
qed

text \<open>
  C2, amended. In a store reached from the empty one, for a stored user with balance \<open>B\<close>
  and a payload whose duration \<open>D\<close> satisfies \<open>1 <= D <= B\<close> and which passes the ordering,
  current-year and overlap checks, \<open>requestLeave\<close> succeeds, stores the new request with
  status PENDING and \<open>days = D\<close>, and leaves the balance of the user at the double nearest
  to \<open>B - D\<close> (\<open>fsub B D\<close>); that is \<open>B - D\<close> itself when \<open>B\<close> is a whole number of at
  most \<open>2 ^ 53\<close> = 9007199254740992.
\<close>

theorem C2_requestLeave_debits:
  assumes "st = run L cs emptyStore"
    and "isValidUUID L userId"
    and "map_of (userStorage st) userId = Some user"
    and "u_availableDays user = B"
    and "js_lt (lp_startDate p) (lp_endDate p)"
    and "js_eq (getFullYear L (lp_startDate p)) (getFullYear L (dateNow E))"
    and "js_eq (getFullYear L (lp_endDate p)) (getFullYear L (dateNow E))"
    and "findDiffInDays (lp_startDate p) (lp_endDate p) = D"
    and "js_le (Fin 1) D" and "js_le D B"
    and "\<not> isOverlapping (lp_startDate p) (lp_endDate p)
             (filter (\<lambda>leave. l_userId leave = userId) (values_of (leaveStorage st)))"
  shows "\<exists>leave st'. requestLeave L E userId p st = (Inr leave, st')
           \<and> l_userId leave = userId
           \<and> l_startDate leave = lp_startDate p \<and> l_endDate leave = lp_endDate p
           \<and> l_status leave = PENDING \<and> l_days leave = D
           \<and> map_of (leaveStorage st') (l_id leave) = Some leave
           \<and> map_option u_availableDays (map_of (userStorage st') userId) = Some (fsub B D)
           \<and> (B = Fin (of_int b) \<and> b \<le> 9007199254740992
                \<longrightarrow> (\<exists>d. D = Fin (of_int d) \<and> fsub B D = Fin (of_int (b - d))))"
proof -
  have wf: "wf_store L st"
    unfolding assms(1) by (rule wf_reachable)
  have bal: "\<not> js_lt (u_availableDays user) D"
    using assms(4,10) by (simp add: js_le_not_lt)
  have nz: "\<not> falsy (u_availableDays user)"
    using assms(4,9,10) by (simp add: js_le_1_not_falsy)
  have exact: "\<exists>d. D = Fin (of_int d) \<and> fsub B D = Fin (of_int (b - d))"
    if B: "B = Fin (of_int b)" and b: "b \<le> 9007199254740992"
  proof -
    from findDiffInDays_cases [of "lp_startDate p" "lp_endDate p"] assms(8,9,10) B
    obtain d where d: "1 \<le> d" "D = Fin (of_int d)"
      by (auto simp: js_le_def js_eq_def)
    have "d \<le> b"
      using assms(10) B d(2) by (auto simp: js_le_def js_eq_def)
    then have "fsub (Fin (of_int b)) (Fin (of_int d)) = Fin (of_int (b - d))"
      using d(1) b by (intro fsub_Fin_int) simp
    then show ?thesis
      using B d(2) by auto
  qed
  show ?thesis
    unfolding requestLeave_ok [OF wf assms(2,3,5,6,7,8) bal nz assms(11)]
    using assms(4) exact by (simp add: map_of_update)
qed

theorem C2_requestLeave_debits_witness:
  "\<exists>leave st'.
     requestLeave exLib (exEnv idL) idA (period 10 15)
       (run exLib [(exEnv idA, AddUser (annPayload (Some (Fin 21))))] emptyStore)
       = (Inr leave, st')
     \<and> l_userId leave = idA
     \<and> l_startDate leave = jan2026 10 \<and> l_endDate leave = jan2026 15
     \<and> l_status leave = PENDING \<and> l_days leave = Fin 5
     \<and> map_of (leaveStorage st') (l_id leave) = Some leave
     \<and> map_option u_availableDays (map_of (userStorage st') idA) = Some (Fin 16)"
proof -
  have st: "stAnn (Fin 21)
              = run exLib [(exEnv idA, AddUser (annPayload (Some (Fin 21))))] emptyStore"
    by (simp only: run_addAnn)
  have d: "findDiffInDays (jan2026 10) (jan2026 15) = Fin 5"
    using findDiffInDays_jan2026 [of 10 15] by simp
  have sub: "fsub (Fin 21) (Fin 5) = Fin 16"
    using fsub_Fin_int [of 21 5] by simp
  show ?thesis
    unfolding st [symmetric]
    using C2_requestLeave_debits [OF st, where userId = idA and user = "userA (Fin 21)"
        and B = "Fin 21" and p = "period 10 15" and E = "exEnv idL" and D = "Fin 5" and b = 21]
    by (simp add: stAnn_def period_def d sub exEnv_def isOverlapping_def values_of_def
          userA_def js_eq_def js_le_def)
qed

text \<open>
  C3. The code does not credit the days back when the balance of the owner is 0, which
  is the state a request for the whole balance leaves: Ann has 5 days, her request for
  the 10th to the 15th of January charges 5 and leaves 0, and rejecting it leaves 0, not
  the 5 days she had before the request. The guard \<open>!user.Ok.availableDays\<close> of
  \<open>updateUsersAvailableDays\<close> takes the balance 0 for a missing one.
\<close>

theorem C3_reject_after_full_debit:
  "map u_availableDays (values_of (userStorage
      (run exLib [(exEnv idA, AddUser (annPayload (Some (Fin 5))))] emptyStore))) = [Fin 5]
   \<and> map l_days (values_of (leaveStorage
      (run exLib [(exEnv idA, AddUser (annPayload (Some (Fin 5)))),
                  (exEnv idL, RequestLeave idA (period 10 15))] emptyStore))) = [Fin 5]
   \<and> map u_availableDays (values_of (userStorage
      (run exLib [(exEnv idA, AddUser (annPayload (Some (Fin 5)))),
                  (exEnv idL, RequestLeave idA (period 10 15))] emptyStore))) = [Fin 0]
   \<and> map u_availableDays (values_of (userStorage
      (run exLib [(exEnv idA, AddUser (annPayload (Some (Fin 5)))),
                  (exEnv idL, RequestLeave idA (period 10 15)),
                  (exEnv idB, UpdateLeaveStatus idL REJECTED)] emptyStore))) = [Fin 0]"
proof -
  have a: "run exLib [(exEnv idA, AddUser (annPayload (Some (Fin 5))))] emptyStore
             = stAnn (Fin 5)"
    by (rule run_addAnn)
  have b: "run exLib [(exEnv idA, AddUser (annPayload (Some (Fin 5)))),
                   (exEnv idL, RequestLeave idA (period 10 15))] emptyStore
          = stAnnWith (Fin 0) (leaveA 10 15)"
    using run_addAnn_request_int [of 5] by (simp add: stAnnLeave_def)
  then have c: "run exLib [(exEnv idA, AddUser (annPayload (Some (Fin 5)))),
                     (exEnv idL, RequestLeave idA (period 10 15)),
                     (exEnv idB, UpdateLeaveStatus idL REJECTED)] emptyStore
          = stAnnWith (Fin 0) ((leaveA 10 15)\<lparr>l_status := REJECTED, l_updatedAt := Some 0\<rparr>)"
    by (simp add: updateLeaveStatus_stAnnWith falsy_def)
  show ?thesis
    unfolding a b c balances_stAnnWith
    by (simp add: stAnn_def stAnnWith_def values_of_def userA_def)
qed

text \<open>
  C4. The code does not debit again when the balance of the owner is 0: Ann registers
  with 10 days and requests the 10th to the 15th of January (5 days, 5 left). The first
  approval charges 5 and leaves 0; the second approval meets the same guard
  \<open>!user.Ok.availableDays\<close> and charges nothing, so the two calls reduce the balance by 5,
  not by \<open>2 * 5\<close>.
\<close>

theorem C4_double_approval:
  "map u_availableDays (values_of (userStorage
      (run exLib [(exEnv idA, AddUser (annPayload (Some (Fin 10)))),
                  (exEnv idL, RequestLeave idA (period 10 15))] emptyStore))) = [Fin 5]
   \<and> map l_days (values_of (leaveStorage
      (run exLib [(exEnv idA, AddUser (annPayload (Some (Fin 10)))),
                  (exEnv idL, RequestLeave idA (period 10 15))] emptyStore))) = [Fin 5]
   \<and> map u_availableDays (values_of (userStorage
      (run exLib [(exEnv idA, AddUser (annPayload (Some (Fin 10)))),
                  (exEnv idL, RequestLeave idA (period 10 15)),
                  (exEnv idB, UpdateLeaveStatus idL APPROVED)] emptyStore))) = [Fin 0]
   \<and> map u_availableDays (values_of (userStorage
      (run exLib [(exEnv idA, AddUser (annPayload (Some (Fin 10)))),
                  (exEnv idL, RequestLeave idA (period 10 15)),
                  (exEnv idB, UpdateLeaveStatus idL APPROVED),
                  (exEnv idB, UpdateLeaveStatus idL APPROVED)] emptyStore))) = [Fin 0]
   \<and> Fin 0 \<noteq> Fin (5 - 2 * 5)"
proof -
  have b: "run exLib [(exEnv idA, AddUser (annPayload (Some (Fin 10)))),
                   (exEnv idL, RequestLeave idA (period 10 15))] emptyStore
          = stAnnWith (Fin 5) (leaveA 10 15)"
    using run_addAnn_request_int [of 10] by (simp add: stAnnLeave_def)
  then have c: "run exLib [(exEnv idA, AddUser (annPayload (Some (Fin 10)))),
                     (exEnv idL, RequestLeave idA (period 10 15)),
                     (exEnv idB, UpdateLeaveStatus idL APPROVED)] emptyStore
          = stAnnWith (Fin 0) ((leaveA 10 15)\<lparr>l_status := APPROVED, l_updatedAt := Some 0\<rparr>)"
    using fsub_Fin_int [of 5 5] by (simp add: updateLeaveStatus_stAnnWith falsy_def)
  then have d: "run exLib [(exEnv idA, AddUser (annPayload (Some (Fin 10)))),
                     (exEnv idL, RequestLeave idA (period 10 15)),
                     (exEnv idB, UpdateLeaveStatus idL APPROVED),
                     (exEnv idB, UpdateLeaveStatus idL APPROVED)] emptyStore
          = stAnnWith (Fin 0) ((leaveA 10 15)\<lparr>l_status := APPROVED, l_updatedAt := Some 0\<rparr>)"
    by (simp add: updateLeaveStatus_stAnnWith falsy_def)
  show ?thesis
    unfolding b c d balances_stAnnWith by (simp add: stAnnWith_def values_of_def)
qed

text \<open>
  C5, as stated, fails on the code: the overlap check is the last of the checks, so an
  overlapping request that fails an earlier one gets the error of that one. Ann has 5
  days and holds a request for the 10th to the 15th of January, which left her 0 days;
  her request for the 15th to the 20th shares the boundary, and is refused for exceeding
  her available days.
\<close>

theorem C5_overlap_error_counterexample:
  "run exLib [(exEnv idA, AddUser (annPayload (Some (Fin 5)))),
              (exEnv idL, RequestLeave idA (period 10 15))] emptyStore
     = stAnnLeave (Fin 0) 10 15
   \<and> leaveA 10 15 \<in> set (values_of (leaveStorage (stAnnLeave (Fin 0) 10 15)))
   \<and> l_userId (leaveA 10 15) = idA
   \<and> \<not> (js_lt (l_endDate (leaveA 10 15)) (lp_startDate (period 15 20))
          \<or> js_gt (l_startDate (leaveA 10 15)) (lp_endDate (period 15 20)))
   \<and> requestLeave exLib (exEnv idB) idA (period 15 20) (stAnnLeave (Fin 0) 10 15)
       = (Inl ExceedingAvailableDays, stAnnLeave (Fin 0) 10 15)
   \<and> Inl ExceedingAvailableDays \<noteq> (Inl Overlapping :: error + Leave)"
proof -
  have d: "findDiffInDays (jan2026 15) (jan2026 20) = Fin 5"
    using findDiffInDays_jan2026 [of 15 20] by simp
  show ?thesis
    using run_addAnn_request_int [of 5]
    by (simp add: stAnnLeave_def stAnnWith_def userA_def exEnv_def period_def values_of_def
          d requestLeave_def getUser_def js_eq_def Let_def)
qed

text \<open>
  C5, amended. For a user who owns a request with range \<open>[s1, e1]\<close>, a \<open>requestLeave\<close>
  for the same user with a range \<open>[s2, e2]\<close> such that \<open>\<not> (e1 < s2 \<or> s1 > e2)\<close>, the
  shared boundary \<open>e1 = s2\<close> included, fails and leaves both stores as they were; the
  error is the overlap error whenever the earlier checks pass (well-formed identifier,
  stored user, \<open>s2 < e2\<close>, both dates in the current year, duration within the balance).
\<close>

theorem C5_overlap_rejected:
  assumes "leave \<in> set (values_of (leaveStorage st))"
    and "l_userId leave = userId"
    and "l_startDate leave = s1" and "l_endDate leave = e1"
    and "lp_startDate p = s2" and "lp_endDate p = e2"
    and "\<not> (js_lt e1 s2 \<or> js_gt s1 e2)"
  shows "(\<exists>e. requestLeave L E userId p st = (Inl e, st))
         \<and> (isValidUUID L userId \<and> map_of (userStorage st) userId = Some user
              \<and> js_lt s2 e2
              \<and> js_eq (getFullYear L s2) (getFullYear L (dateNow E))
              \<and> js_eq (getFullYear L e2) (getFullYear L (dateNow E))
              \<and> js_le (findDiffInDays s2 e2) (u_availableDays user)
            \<longrightarrow> requestLeave L E userId p st = (Inl Overlapping, st))"
proof -
  have ov: "isOverlapping (lp_startDate p) (lp_endDate p)
              (filter (\<lambda>leave. l_userId leave = userId) (values_of (leaveStorage st)))"
    unfolding isOverlapping_def list_ex_iff
    using assms by (intro bexI [of _ leave]) (auto simp: js_gt_def)
  show ?thesis
    using ov assms(5,6) findDiffInDays_not_lt_1 [of s2 e2]
    by (auto simp: requestLeave_def Let_def getUser_def js_lt_not_ge js_le_not_lt
          split: sum.splits option.splits)
qed

theorem C5_overlap_rejected_witness:
  "(\<exists>e. requestLeave exLib (exEnv idB) idA (period 15 20) (stAnnLeave (Fin 16) 10 15)
          = (Inl e, stAnnLeave (Fin 16) 10 15))
   \<and> requestLeave exLib (exEnv idB) idA (period 15 20) (stAnnLeave (Fin 16) 10 15)
       = (Inl Overlapping, stAnnLeave (Fin 16) 10 15)"
proof -
  have d: "findDiffInDays (jan2026 15) (jan2026 20) = Fin 5"
    using findDiffInDays_jan2026 [of 15 20] by simp
  show ?thesis
    using C5_overlap_rejected [where leave = "leaveA 10 15" and st = "stAnnLeave (Fin 16) 10 15"
        and userId = idA and ?s1.0 = "jan2026 10" and ?e1.0 = "jan2026 15"
        and p = "period 15 20" and ?s2.0 = "jan2026 15" and ?e2.0 = "jan2026 20"
        and L = exLib and E = "exEnv idB"
        and user = "(userA (Fin 16))\<lparr>u_updatedAt := Some 0\<rparr>"]
    by (simp add: stAnnLeave_def stAnnWith_def userA_def exEnv_def period_def values_of_def
          d js_eq_def js_le_def)
qed




text \<open>
  C7. For a stored user with balance \<open>B\<close> and a payload whose duration \<open>D\<close> exceeds
  \<open>B\<close>, the earlier checks passing, \<open>requestLeave\<close> returns the insufficient-balance
  error and the store, hence the balance and the requests, is unchanged.
\<close>

theorem C7_requestLeave_insufficient:
  assumes "isValidUUID L userId"
    and "map_of (userStorage st) userId = Some user"
    and "u_availableDays user = B"
    and "js_lt (lp_startDate p) (lp_endDate p)"
    and "js_eq (getFullYear L (lp_startDate p)) (getFullYear L (dateNow E))"
    and "js_eq (getFullYear L (lp_endDate p)) (getFullYear L (dateNow E))"
    and "findDiffInDays (lp_startDate p) (lp_endDate p) = D"
    and "js_gt D B"
  shows "requestLeave L E userId p st = (Inl ExceedingAvailableDays, st)"
  using assms findDiffInDays_not_lt_1 [of "lp_startDate p" "lp_endDate p"]
  by (simp add: requestLeave_def getUser_def Let_def js_lt_not_ge js_gt_def)

theorem C7_requestLeave_insufficient_witness:
  "requestLeave exLib (exEnv idL) idA (period 10 15) (stAnn (Fin 3))
     = (Inl ExceedingAvailableDays, stAnn (Fin 3))"
proof -
  have d: "findDiffInDays (jan2026 10) (jan2026 15) = Fin 5"
    using findDiffInDays_jan2026 [of 10 15] by simp
  show ?thesis
    using C7_requestLeave_insufficient [where L = exLib and userId = idA
        and st = "stAnn (Fin 3)" and user = "userA (Fin 3)" and B = "Fin 3"
        and p = "period 10 15" and E = "exEnv idL" and D = "Fin 5"]
    by (simp add: stAnn_def period_def d exEnv_def userA_def js_eq_def js_gt_def)
qed

text \<open>
  The filter of \<open>getUsersLeaveRequests\<close> compares a field with itself, so every
  well-formed identifier gets every stored request.
\<close>

lemma getUsersLeaveRequests_all:
  "isValidUUID L userId \<Longrightarrow> getUsersLeaveRequests L userId st = getLeaveRequests st"
  by (simp add: getUsersLeaveRequests_def getLeaveRequests_def Let_def)

text \<open>
  C8. \<open>getUsersLeaveRequests\<close> does not return exactly the requests of the supplied
  user: asked for the requests of \<open>idB\<close>, who owns none, the code returns the request
  of \<open>idA\<close>.
\<close>

theorem C8_getUsersLeaveRequests_other_owner:
  "getUsersLeaveRequests exLib idB
     (run exLib [(exEnv idA, AddUser (annPayload (Some (Fin 21)))),
                 (exEnv idL, RequestLeave idA (period 10 15))] emptyStore)
     = Inr [leaveA 10 15]
   \<and> l_userId (leaveA 10 15) = idA \<and> idA \<noteq> idB
   \<and> filter (\<lambda>leave. l_userId leave = idB)
        (values_of (leaveStorage
          (run exLib [(exEnv idA, AddUser (annPayload (Some (Fin 21)))),
                      (exEnv idL, RequestLeave idA (period 10 15))] emptyStore))) = []"
proof -
  have st: "run exLib [(exEnv idA, AddUser (annPayload (Some (Fin 21)))),
                       (exEnv idL, RequestLeave idA (period 10 15))] emptyStore
              = stAnnLeave (Fin 16) 10 15"
    using run_addAnn_request_int [of 21] by simp
  show ?thesis
    unfolding st
    by (simp add: getUsersLeaveRequests_def stAnnLeave_def stAnnWith_def values_of_def Let_def)
qed

lemma emails_update:
  "distinct (map u_email (values_of al)) \<Longrightarrow> u_email v \<notin> u_email ` set (values_of al)
   \<Longrightarrow> distinct (map u_email (values_of (AList.update k v al)))"
proof (induction al)
  case Nil
  then show ?case by (simp add: values_of_simps)
next
  case (Cons a al)
  obtain k' u where a: "a = (k', u)"
    by (cases a)
  show ?case
  proof (cases "k' = k")
    case True
    then show ?thesis
      using Cons.prems a by (simp add: values_of_simps)
  next
    case False
    have sub: "set (values_of (AList.update k v al)) \<subseteq> insert v (set (values_of al))"
      by (rule values_update_subset)
    have "u_email u \<noteq> u_email v" "u_email u \<notin> u_email ` set (values_of al)"
      using Cons.prems a by (auto simp: values_of_simps)
    then have "u_email u \<notin> u_email ` set (values_of (AList.update k v al))"
      using sub by auto
    moreover have "distinct (map u_email (values_of (AList.update k v al)))"
      using Cons.IH Cons.prems a by (simp add: values_of_simps)
    ultimately show ?thesis
      using False a by (simp add: values_of_simps)
  qed
qed

text \<open>
  \<open>addUser\<close> keeps the stored emails distinct.
\<close>

lemma addUser_keeps_emails_distinct:
  assumes "distinct (map u_email (values_of (userStorage st)))"
  shows "distinct (map u_email (values_of (userStorage (snd (addUser E p st)))))"
  using assms
  by (auto simp: addUser_def Let_def find_None_iff intro!: emails_update split: option.splits)

text \<open>
  C9. \<open>updateUser\<close> does not keep them distinct: after Ann and Bob registered with
  different emails, registering a third user with Ann's email is refused, but updating
  Bob with Ann's email succeeds and leaves two users with the same email.
\<close>

theorem C9_updateUser_duplicate_email:
  "map (\<lambda>u. (u_id u, u_email u)) (values_of (userStorage
      (run exLib [(exEnv idA, AddUser (annPayload None)),
                  (exEnv idB, AddUser (bobPayload ''bob@example.org''))] emptyStore)))
     = [(idA, ''ann@example.org''), (idB, ''bob@example.org'')]
   \<and> fst (addUser (exEnv idL) (bobPayload ''ann@example.org'')
       (run exLib [(exEnv idA, AddUser (annPayload None)),
                   (exEnv idB, AddUser (bobPayload ''bob@example.org''))] emptyStore))
     = Inl EmailExists
   \<and> map (\<lambda>u. (u_id u, u_email u)) (values_of (userStorage
      (run exLib [(exEnv idA, AddUser (annPayload None)),
                  (exEnv idB, AddUser (bobPayload ''bob@example.org'')),
                  (exEnv idL, UpdateUser idB (bobPayload ''ann@example.org''))] emptyStore)))
     = [(idA, ''ann@example.org''), (idB, ''ann@example.org'')]"
  by (simp add: addUser_def updateUser_def annPayload_def bobPayload_def emptyStore_def
        values_of_def exEnv_def Let_def)

text \<open>
  C10. For an existing leave request whose owner is absent from the user store, or whose
  owner has a balance of 0, \<open>updateLeaveStatus\<close> returns Ok with the status overwritten,
  the updated request is stored, and the user store is unchanged.
\<close>

theorem C10_updateLeaveStatus_adjust_fails:
  assumes "isValidUUID L idv"
    and "map_of (leaveStorage st) idv = Some leave"
    and "map_of (userStorage st) (l_userId leave) = None
         \<or> (\<exists>user. map_of (userStorage st) (l_userId leave) = Some user
                    \<and> u_availableDays user = Fin 0)"
    and "updated = leave\<lparr>l_status := status, l_updatedAt := Some (ic_time E)\<rparr>"
  shows "fst (updateLeaveStatus L E idv status st) = Inr updated
         \<and> leaveStorage (snd (updateLeaveStatus L E idv status st))
             = AList.update (l_id leave) updated (leaveStorage st)
         \<and> map_of (leaveStorage (snd (updateLeaveStatus L E idv status st))) (l_id leave)
             = Some updated
         \<and> userStorage (snd (updateLeaveStatus L E idv status st)) = userStorage st"
  using assms
  by (auto simp: updateLeaveStatus_def updateUsersAvailableDays_def getUser_def Let_def
        map_of_update falsy_def)

theorem C10_updateLeaveStatus_adjust_fails_witness:
  "fst (updateLeaveStatus exLib (exEnv idB) idL APPROVED (stAnnLeave (Fin 0) 10 15))
     = Inr ((leaveA 10 15)\<lparr>l_status := APPROVED, l_updatedAt := Some 0\<rparr>)
   \<and> leaveStorage (snd (updateLeaveStatus exLib (exEnv idB) idL APPROVED
                          (stAnnLeave (Fin 0) 10 15)))
       = [(idL, (leaveA 10 15)\<lparr>l_status := APPROVED, l_updatedAt := Some 0\<rparr>)]
   \<and> userStorage (snd (updateLeaveStatus exLib (exEnv idB) idL APPROVED
                         (stAnnLeave (Fin 0) 10 15)))
       = userStorage (stAnnLeave (Fin 0) 10 15)"
  using C10_updateLeaveStatus_adjust_fails [where L = exLib and idv = idL
      and st = "stAnnLeave (Fin 0) 10 15" and leave = "leaveA 10 15" and status = APPROVED
      and E = "exEnv idB"
      and updated = "(leaveA 10 15)\<lparr>l_status := APPROVED, l_updatedAt := Some 0\<rparr>"]
  by (simp add: stAnnLeave_def stAnnWith_def leaveA_def userA_def exEnv_def)

end
